theory Spec2Isabelle
  imports Complex_Main "HOL-Library.Word"
begin

unbundle bit_operations_syntax

section \<open>JavaScript values shared by the encoder and the writer\<close>

text \<open>
  The two stages exchange a plain JavaScript object. A property that the object does not
  have reads as \<open>undefined\<close>, so the object is modelled as a list of named properties
  and not as a record with a fixed set of fields. A \<open>Uint16Array\<close> is the list of its
  cells, every cell a number below 65536.
\<close>

datatype jsval = Undefined | Number int | Uint16Array "nat list"

type_synonym jsobject = "(string \<times> jsval) list"

definition get_prop :: "jsobject \<Rightarrow> string \<Rightarrow> jsval" where
  "get_prop obj name = (case map_of obj name of None \<Rightarrow> Undefined | Some v \<Rightarrow> v)"

text \<open>
  Storing into a \<open>Uint16Array\<close>: the value is converted to a number and reduced modulo
  \<open>2^16\<close> (\<open>undefined\<close> converts to \<open>NaN\<close>, which is stored as 0), and a store at an index
  outside the array is dropped: a typed array never grows.
\<close>

definition toUint16 :: "int option \<Rightarrow> nat" where
  "toUint16 v = (case v of None \<Rightarrow> 0 | Some n \<Rightarrow> nat (n mod 65536))"

definition u16_store :: "nat list \<Rightarrow> nat \<Rightarrow> int option \<Rightarrow> nat list" where
  "u16_store a i v = (if i < length a then a[i := toUint16 v] else a)"

text \<open>Reading a typed array outside its bounds gives \<open>undefined\<close> (\<open>None\<close>).\<close>

definition u16_read :: "nat list \<Rightarrow> nat \<Rightarrow> nat option" where
  "u16_read a i = (if i < length a then Some (a ! i) else None)"

section \<open>Encoder\<close>

definition VERSION :: int where "VERSION = 0"
definition WIDTH :: int where "WIDTH = 8"
definition HEIGHT :: int where "HEIGHT = 8"

text \<open>\<open>Encoder.MAPPING_TABLE\<close>, an \<open>Int16Array\<close> of 128 entries: the eight rows of
  sixteen entries of the source, one list a row.\<close>

definition MAPPING_TABLE :: "int list" where
  "MAPPING_TABLE =
     [-1, -1, -1, -1, -1, -1, -1, -1, -1, -1, -1, -1, -1, -1, -1, -1] @
     [-1, -1, -1, -1, -1, -1, -1, -1, -1, -1, -1, -1, -1, -1, -1, -1] @
     [-1, -1, -1, -1, -1, -1, -1, -1, -1, -1, -1, -1, -1, -1, -1, -1] @
     [52, 53, 54, 55, 56, 57, 58, 59, 60, 61, -1, -1, -1, -1, -1, -1] @
     [-1, 26, 27, 28, 29, 30, 31, 32, 33, 34, 35, 36, 37, 38, 39, 40] @
     [41, 42, 43, 44, 45, 46, 47, 48, 49, 50, 51, -1, -1, -1, -1, -1] @
     [-1, 0, 1, 2, 3, 4, 5, 6, 7, 8, 9, 10, 11, 12, 13, 14] @
     [15, 16, 17, 18, 19, 20, 21, 22, 23, 24, 25, -1, -1, -1, -1, -1]"

text \<open>
  \<open>MAPPING_TABLE[code]\<close>: the entry, or \<open>undefined\<close> (\<open>None\<close>) for a code at or beyond the
  table's end.
\<close>

definition table_lookup :: "nat \<Rightarrow> int option" where
  "table_lookup code =
     (if code < length MAPPING_TABLE then Some (MAPPING_TABLE ! code) else None)"

text \<open>
  A string is the list of its UTF-16 code units; \<open>content.charCodeAt(i)\<close> for \<open>i\<close> below
  the length is \<open>content ! i\<close>.
\<close>

type_synonym jsstring = "nat list"

datatype encode_error = ContentTooLong | UnsupportedCharacter

text \<open>
  The body of \<open>Encoder.encode\<close> up to its \<open>return\<close>: the array is allocated with
  \<open>WIDTH * HEIGHT\<close> cells (zero-filled), the first loop stores every index in its own
  cell, cells 0 and 1 receive the version and the content length, the second loop stores
  the table entry of character \<open>i\<close> at index \<open>i + 2\<close>.
\<close>

definition encode_data :: "jsstring \<Rightarrow> nat list" where
  "encode_data content =
     (let data0 = replicate (nat (WIDTH * HEIGHT)) 0;
          data1 = fold (\<lambda>i d. u16_store d i (Some (int i))) [0..<length data0] data0;
          data2 = u16_store data1 0 (Some VERSION);
          data3 = u16_store data2 1 (Some (int (length content)))
      in fold (\<lambda>i d. u16_store d (i + 2) (table_lookup (content ! i)))
           [0..<length content] data3)"

text \<open>
  \<open>Encoder.encode\<close> returns the object literal \<open>{ version, width, height, data }\<close>. The
  source has no \<open>throw\<close> and no operation of its body can fail, so every call returns.
\<close>

definition encode :: "jsstring \<Rightarrow> encode_error + jsobject" where
  "encode content =
     Inr [(''version'', Number VERSION), (''width'', Number WIDTH),
          (''height'', Number HEIGHT), (''data'', Uint16Array (encode_data content))]"

subsection \<open>The character table as the spec words it\<close>

text \<open>
  The spec's description of the table, to compare \<open>MAPPING_TABLE\<close> with: the mapped
  characters are the ASCII digits, the uppercase and the lowercase letters; the digits
  \<open>'0'\<close> to \<open>'9'\<close> map to 52 to 61, \<open>'A'\<close> to \<open>'Z'\<close> to 26 to 51, \<open>'a'\<close> to \<open>'z'\<close> to 0 to
  25, and every other character to \<open>-1\<close>.
\<close>

definition alphanumeric :: "nat \<Rightarrow> bool" where
  "alphanumeric ch =
     ((48 \<le> ch \<and> ch \<le> 57) \<or> (65 \<le> ch \<and> ch \<le> 90) \<or> (97 \<le> ch \<and> ch \<le> 122))"

definition spec_symbol_code :: "nat \<Rightarrow> int" where
  "spec_symbol_code ch =
     (if 48 \<le> ch \<and> ch \<le> 57 then 52 + (int ch - 48)
      else if 65 \<le> ch \<and> ch \<le> 90 then 26 + (int ch - 65)
      else if 97 \<le> ch \<and> ch \<le> 122 then int ch - 97
      else - 1)"

section \<open>Numbers, points and layout constants of the writer\<close>

text \<open>
  The writer computes with JavaScript numbers. Every quantity it handles is an integer or
  an integer multiple of \<open>1/2\<close> or \<open>1/7\<close> (from \<open>UNIT_DIM * 4.5\<close> and
  \<open>FINDER_RADIUS * 3 / 7\<close>), so numbers are modelled as exact rationals: \<open>/\<close> is the
  division of the field, with no rounding to an integer anywhere.
\<close>

type_synonym number = rat

record Point =
  pt_x :: number
  pt_y :: number

text \<open>
  Modelled from the spec: the module \<open>../constants\<close> is not among the sources, and the
  spec names its constants without giving their values. They are parameters of the model:
  pixel counts, and the number of bars of a symbol.
\<close>

record constants =
  SYMBOL_DIM :: int
  GAP_DIM :: int
  GRID_OFFSET :: int
  FINDER_OFFSET :: int
  FINDER_RADIUS :: int
  BITS_PER_SYMBOL :: nat
  UNIT_DIM :: int

section \<open>BitMatrix and ImageData\<close>

text \<open>
  Modelled from the spec: the classes \<open>BitMatrix\<close> and \<open>ImageData\<close> are not among the
  sources. By the spec a bit plane is a grid of single-bit pixels of a fixed height and
  width, all 0 at construction, addressed by \<open>(x, y)\<close> with \<open>x\<close> the column; a write
  outside the plane is ignored and a read outside the plane gives background. The plane is
  the set of its foreground pixels. A pixel of the grid has integer coordinates, so a
  coordinate pair that is not integral lies outside the plane like any other pair that is
  out of range. A colour is \<open>True\<close> for 1 and \<open>False\<close> for 0.
\<close>

record BitMatrix =
  height :: int
  width :: int
  bits :: "(int \<times> int) set"

text \<open>Modelled from the spec: \<open>new BitMatrix(height, width)\<close>, every pixel 0.\<close>

definition BitMatrix_new :: "int \<Rightarrow> int \<Rightarrow> BitMatrix" where
  "BitMatrix_new h w = \<lparr>height = h, width = w, bits = {}\<rparr>"

text \<open>
  Modelled from the spec: the coordinates of the plane, \<open>[0, width) \<times> [0, height)\<close> on the
  integer grid.
\<close>

definition is_integer :: "number \<Rightarrow> bool" where
  "is_integer q = (of_int \<lfloor>q\<rfloor> = q)"

definition in_range :: "BitMatrix \<Rightarrow> number \<Rightarrow> number \<Rightarrow> bool" where
  "in_range m x y =
     (is_integer x \<and> is_integer y \<and> 0 \<le> x \<and> x < of_int (width m) \<and>
      0 \<le> y \<and> y < of_int (height m))"

text \<open>
  Modelled from the spec: \<open>matrix.set(x, y, color)\<close> writes one bit and is ignored outside
  the plane; \<open>matrix.get(x, y)\<close> reads one bit and gives background outside the plane.
\<close>

definition BitMatrix_set :: "BitMatrix \<Rightarrow> number \<Rightarrow> number \<Rightarrow> bool \<Rightarrow> BitMatrix" where
  "BitMatrix_set m x y color =
     (if in_range m x y
      then m\<lparr>bits := (if color then insert (\<lfloor>x\<rfloor>, \<lfloor>y\<rfloor>) (bits m)
                       else bits m - {(\<lfloor>x\<rfloor>, \<lfloor>y\<rfloor>)})\<rparr>
      else m)"

definition BitMatrix_get :: "BitMatrix \<Rightarrow> number \<Rightarrow> number \<Rightarrow> bool" where
  "BitMatrix_get m x y = (in_range m x y \<and> (\<lfloor>x\<rfloor>, \<lfloor>y\<rfloor>) \<in> bits m)"

text \<open>Modelled from the spec: the bitmap wraps the completed bit plane.\<close>

datatype ImageData = ImageData (matrix: BitMatrix)

section \<open>Writer\<close>

text \<open>\<open>Writer.fillRect\<close>: rows \<open>i\<close> below \<open>height\<close>, in each row columns \<open>j\<close> below \<open>width\<close>.\<close>

definition fillRect ::
  "number \<Rightarrow> number \<Rightarrow> int \<Rightarrow> int \<Rightarrow> bool \<Rightarrow> BitMatrix \<Rightarrow> BitMatrix" where
  "fillRect x y w h color m =
     fold (\<lambda>i. fold (\<lambda>j m'. BitMatrix_set m' (x + of_nat j) (y + of_nat i) color) [0..<nat w])
       [0..<nat h] m"

text \<open>
  \<open>mask & (1 << bit)\<close> for the cell value \<open>v\<close> passed as \<open>mask\<close>: both operands are converted to 32-bit integers (\<open>undefined\<close>, read
  from a cell outside the array, converts to 0) and the shift count is taken modulo 32.
\<close>

definition toInt32 :: "nat option \<Rightarrow> 32 word" where
  "toInt32 v = (case v of None \<Rightarrow> 0 | Some n \<Rightarrow> of_nat n)"

definition mask_and_bit :: "nat option \<Rightarrow> nat \<Rightarrow> 32 word" where
  "mask_and_bit v b = toInt32 v AND push_bit (b mod 32) 1"

text \<open>
  \<open>Writer.drawSymbol\<close>. \<open>startX\<close> and \<open>startY\<close> are the constants of that name in its
  body; \<open>drawSymbol_bit\<close> is one round of its loop, for the bar \<open>b\<close> of the cell value
  \<open>v\<close>: the bar is filled, then its middle is cleared when the bit is zero.
\<close>

definition startX :: "constants \<Rightarrow> int \<Rightarrow> int" where
  "startX K col = col * (SYMBOL_DIM K + GAP_DIM K) + GRID_OFFSET K"

definition startY :: "constants \<Rightarrow> int \<Rightarrow> int" where
  "startY K row = row * (SYMBOL_DIM K + GAP_DIM K) + GRID_OFFSET K"

definition drawSymbol_bit ::
  "constants \<Rightarrow> int \<Rightarrow> int \<Rightarrow> nat option \<Rightarrow> nat \<Rightarrow> BitMatrix \<Rightarrow> BitMatrix" where
  "drawSymbol_bit K sx sy v b m =
     (let m1 = fillRect (of_int sx) (of_int (sy + UNIT_DIM K * int b * 2))
                 (SYMBOL_DIM K) (UNIT_DIM K) True m
      in if mask_and_bit v b = 0
         then fillRect (of_int sx + of_int (UNIT_DIM K) * (9 / 2))
                (of_int (sy + UNIT_DIM K * int b * 2))
                (UNIT_DIM K * 2) (UNIT_DIM K) False m1
         else m1)"

definition drawSymbol ::
  "constants \<Rightarrow> int \<Rightarrow> int \<Rightarrow> nat option \<Rightarrow> BitMatrix \<Rightarrow> BitMatrix" where
  "drawSymbol K row col v m =
     fold (drawSymbol_bit K (startX K col) (startY K row) v) [0..<BITS_PER_SYMBOL K] m"

definition setPixelSymmetricOctant ::
  "Point \<Rightarrow> number \<Rightarrow> number \<Rightarrow> bool \<Rightarrow> BitMatrix \<Rightarrow> BitMatrix" where
  "setPixelSymmetricOctant c x y color m =
     (let m1 = BitMatrix_set m (pt_x c + x) (pt_y c + y) color;
          m2 = BitMatrix_set m1 (pt_x c + x) (pt_y c - y) color;
          m3 = BitMatrix_set m2 (pt_x c - x) (pt_y c + y) color;
          m4 = BitMatrix_set m3 (pt_x c - x) (pt_y c - y) color;
          m5 = BitMatrix_set m4 (pt_x c + y) (pt_y c + x) color;
          m6 = BitMatrix_set m5 (pt_x c + y) (pt_y c - x) color;
          m7 = BitMatrix_set m6 (pt_x c - y) (pt_y c + x) color
      in BitMatrix_set m7 (pt_x c - y) (pt_y c - x) color)"

text \<open>
  The \<open>while (x >= y)\<close> loop of \<open>Writer.drawCircle\<close>, on its variables. Every round
  either raises \<open>y\<close> or lowers \<open>x\<close> by one, so \<open>x - y\<close> falls by one and the loop ends.
\<close>

function circle_loop ::
  "Point \<Rightarrow> number \<Rightarrow> bool \<Rightarrow> number \<Rightarrow> number \<Rightarrow> number \<Rightarrow> number \<Rightarrow> number \<Rightarrow>
   BitMatrix \<Rightarrow> BitMatrix" where
  "circle_loop c r color x y dx dy err m =
     (if x \<ge> y
      then let m' = setPixelSymmetricOctant c x y color m
           in if err \<le> 0
              then circle_loop c r color x (y + 1) dx (dy + 2) (err + dy) m'
              else circle_loop c r color (x - 1) y (dx + 2) dy (err + (dx + 2) - 2 * r) m'
      else m)"
  by pat_completeness auto
termination
  by (relation "measure (\<lambda>(c, r, color, x, y, dx, dy, err, m). nat (\<lfloor>x - y\<rfloor> + 1))")
     (auto simp: diff_diff_eq [symmetric] diff_right_commute [of _ 1])

declare circle_loop.simps [simp del]

definition drawCircle :: "Point \<Rightarrow> number \<Rightarrow> bool \<Rightarrow> BitMatrix \<Rightarrow> BitMatrix" where
  "drawCircle c r color m = circle_loop c r color r 0 1 1 (1 - 2 * r) m"

text \<open>
  A loop \<open>for (let i = lo; i <= hi; i++) body(i)\<close> on a state \<open>s\<close>. The counter starts at
  \<open>lo\<close>, which need not be an integer, and grows by one.
\<close>

function for_upto :: "number \<Rightarrow> number \<Rightarrow> (number \<Rightarrow> 's \<Rightarrow> 's) \<Rightarrow> 's \<Rightarrow> 's" where
  "for_upto i hi body s = (if i \<le> hi then for_upto (i + 1) hi body (body i s) else s)"
  by pat_completeness auto
termination
  by (relation "measure (\<lambda>(i, hi, body, s). nat (\<lfloor>hi - i\<rfloor> + 1))")
     (auto simp: diff_diff_eq [symmetric])

declare for_upto.simps [simp del]

text \<open>
  The two loops of \<open>Writer.drawFinderPattern\<close> and the loop of
  \<open>Writer.drawAlignmentPattern\<close>, with the loop body as a parameter: the writer runs them
  with \<open>drawCircle(centre, i, 1, matrix)\<close>; run with a body that records \<open>i\<close>, they give
  the radii of the circles drawn, in order.
\<close>

definition finder_loops :: "constants \<Rightarrow> (number \<Rightarrow> 's \<Rightarrow> 's) \<Rightarrow> 's \<Rightarrow> 's" where
  "finder_loops K body s =
     (let r1 = of_int (FINDER_RADIUS K) * 3 / 7;
          r2 = of_int (FINDER_RADIUS K) * 5 / 7;
          r3 = of_int (FINDER_RADIUS K)
      in for_upto (r2 + 1) r3 body (for_upto 0 r1 body s))"

definition alignment_loop :: "constants \<Rightarrow> (number \<Rightarrow> 's \<Rightarrow> 's) \<Rightarrow> 's \<Rightarrow> 's" where
  "alignment_loop K body s =
     (let r1 = of_int (FINDER_RADIUS K) * 3 / 7;
          r2 = of_int (FINDER_RADIUS K) * 5 / 7
      in for_upto (r1 + 1) r2 body s)"

definition drawFinderPattern :: "constants \<Rightarrow> Point \<Rightarrow> BitMatrix \<Rightarrow> BitMatrix" where
  "drawFinderPattern K centre m = finder_loops K (\<lambda>i. drawCircle centre i True) m"

definition drawAlignmentPattern :: "constants \<Rightarrow> Point \<Rightarrow> BitMatrix \<Rightarrow> BitMatrix" where
  "drawAlignmentPattern K centre m = alignment_loop K (\<lambda>i. drawCircle centre i True) m"

definition finder_radii :: "constants \<Rightarrow> number list" where
  "finder_radii K = finder_loops K (\<lambda>i acc. acc @ [i]) []"

definition alignment_radii :: "constants \<Rightarrow> number list" where
  "alignment_radii K = alignment_loop K (\<lambda>i acc. acc @ [i]) []"

text \<open>
  The body of \<open>Writer.render\<close> for a row count, a column count and a data array: the
  image size, the zero-filled matrix, three finder patterns, the alignment pattern, the
  symbols row by row.
\<close>

definition render_grid :: "constants \<Rightarrow> int \<Rightarrow> int \<Rightarrow> nat list \<Rightarrow> ImageData" where
  "render_grid K rows cols d =
     (let imgHeight = rows * SYMBOL_DIM K + (rows - 1) * GAP_DIM K + GRID_OFFSET K * 2;
          imgWidth = cols * SYMBOL_DIM K + (cols - 1) * GAP_DIM K + GRID_OFFSET K * 2;
          m0 = BitMatrix_new imgHeight imgWidth;
          m1 = drawFinderPattern K
                 \<lparr>pt_x = of_int (FINDER_OFFSET K), pt_y = of_int (FINDER_OFFSET K)\<rparr> m0;
          m2 = drawFinderPattern K
                 \<lparr>pt_x = of_int (imgWidth - FINDER_OFFSET K),
                  pt_y = of_int (FINDER_OFFSET K)\<rparr> m1;
          m3 = drawFinderPattern K
                 \<lparr>pt_x = of_int (FINDER_OFFSET K),
                  pt_y = of_int (imgHeight - FINDER_OFFSET K)\<rparr> m2;
          m4 = drawAlignmentPattern K
                 \<lparr>pt_x = of_int (imgWidth - FINDER_OFFSET K),
                  pt_y = of_int (imgHeight - FINDER_OFFSET K)\<rparr> m3
      in ImageData
           (fold (\<lambda>i. fold (\<lambda>j. drawSymbol K (int i) (int j)
                                   (u16_read d (nat (int i * cols + int j))))
                          [0..<nat cols])
              [0..<nat rows] m4))"

text \<open>
  \<open>Writer.render\<close> on the object it is given. It reads \<open>code.rows\<close> and \<open>code.cols\<close> and
  computes with them, which converts them to numbers: \<open>undefined\<close> converts to \<open>NaN\<close>
  (\<open>None\<close>), and a typed array converts by way of its text, so that an empty one counts as
  0, one of a single cell as that cell and any longer one as \<open>NaN\<close>.
\<close>

definition toNumber :: "jsval \<Rightarrow> int option" where
  "toNumber v =
     (case v of
        Undefined \<Rightarrow> None
      | Number n \<Rightarrow> Some n
      | Uint16Array d \<Rightarrow> (case d of [] \<Rightarrow> Some 0 | [n] \<Rightarrow> Some (int n) | _ \<Rightarrow> None))"

text \<open>
  The three ways a call of \<open>render\<close> ends. \<open>Bitmap\<close>: it returns the image of a matrix of
  a size in pixels. \<open>NaN_sized\<close>: \<open>rows\<close> or \<open>cols\<close> is \<open>NaN\<close>; then the image height or
  width is \<open>NaN\<close>, the guard \<open>i < rows\<close> or \<open>j < cols\<close> is false from the start, no symbol
  is drawn and \<open>code.data\<close> is never indexed, and the call returns the image of the matrix
  that was constructed with that height and width; the spec describes a bit plane of a
  fixed size in pixels only, so the model keeps the two sizes (\<open>None\<close> for \<open>NaN\<close>) and says
  nothing of the content of such a matrix. \<open>TypeError\<close>: both counts are positive and
  \<open>code.data\<close> is \<open>undefined\<close>, so that indexing it for the first symbol throws.

  \<open>code.data\<close> is indexed only inside the two loops. Indexing a number gives \<open>undefined\<close>
  at every index, as reading an array without cells does.
\<close>

datatype render_result = Bitmap ImageData | NaN_sized "int option" "int option" | TypeError

definition render :: "constants \<Rightarrow> jsobject \<Rightarrow> render_result" where
  "render K code =
     (let rows = toNumber (get_prop code ''rows'');
          cols = toNumber (get_prop code ''cols'');
          imgHeight = map_option
            (\<lambda>r. r * SYMBOL_DIM K + (r - 1) * GAP_DIM K + GRID_OFFSET K * 2) rows;
          imgWidth = map_option
            (\<lambda>c. c * SYMBOL_DIM K + (c - 1) * GAP_DIM K + GRID_OFFSET K * 2) cols
      in case (rows, cols) of
           (Some r, Some c) \<Rightarrow>
             (case get_prop code ''data'' of
                Undefined \<Rightarrow>
                  if 0 < r \<and> 0 < c then TypeError else Bitmap (render_grid K r c [])
              | Number n \<Rightarrow> Bitmap (render_grid K r c [])
              | Uint16Array d \<Rightarrow> Bitmap (render_grid K r c d))
         | _ \<Rightarrow> NaN_sized imgHeight imgWidth)"

section \<open>Auxiliary notions\<close>

text \<open>
  Lists of coordinates, used to state what the drawing primitives write: \<open>set_pixels\<close>
  writes one colour at every coordinate of a list, in order; \<open>rect_pixels\<close> lists the
  coordinates that \<open>fillRect\<close> visits and \<open>octants\<close> the eight coordinates that
  \<open>setPixelSymmetricOctant\<close> writes.
\<close>

definition set_pixels :: "(number \<times> number) list \<Rightarrow> bool \<Rightarrow> BitMatrix \<Rightarrow> BitMatrix" where
  "set_pixels ps color m = fold (\<lambda>p m'. BitMatrix_set m' (fst p) (snd p) color) ps m"

definition rect_pixels :: "number \<Rightarrow> number \<Rightarrow> int \<Rightarrow> int \<Rightarrow> (number \<times> number) list" where
  "rect_pixels x y w h =
     concat (map (\<lambda>i. map (\<lambda>j. (x + of_nat j, y + of_nat i)) [0..<nat w]) [0..<nat h])"

definition octants :: "Point \<Rightarrow> number \<Rightarrow> number \<Rightarrow> (number \<times> number) list" where
  "octants c x y =
     [(pt_x c + x, pt_y c + y), (pt_x c + x, pt_y c - y),
      (pt_x c - x, pt_y c + y), (pt_x c - x, pt_y c - y),
      (pt_x c + y, pt_y c + x), (pt_x c + y, pt_y c - x),
      (pt_x c - y, pt_y c + x), (pt_x c - y, pt_y c - x)]"

text \<open>A sample layout for concrete instances: symbols of 11 units of 2 pixels, 6 bars.\<close>

definition sample_layout :: constants where
  "sample_layout =
     \<lparr>SYMBOL_DIM = 22, GAP_DIM = 4, GRID_OFFSET = 60, FINDER_OFFSET = 30, FINDER_RADIUS = 21,
      BITS_PER_SYMBOL = 6, UNIT_DIM = 2\<rparr>"

text \<open>
  Three more layouts for concrete instances: the sample layout with a unit of one pixel
  and symbols of 11 pixels, with 33 bars to a symbol, and with a finder radius of 10.
\<close>

definition odd_unit_layout :: constants where
  "odd_unit_layout =
     \<lparr>SYMBOL_DIM = 11, GAP_DIM = 4, GRID_OFFSET = 60, FINDER_OFFSET = 30, FINDER_RADIUS = 21,
      BITS_PER_SYMBOL = 6, UNIT_DIM = 1\<rparr>"

definition wide_symbol_layout :: constants where
  "wide_symbol_layout =
     \<lparr>SYMBOL_DIM = 22, GAP_DIM = 4, GRID_OFFSET = 60, FINDER_OFFSET = 30, FINDER_RADIUS = 21,
      BITS_PER_SYMBOL = 33, UNIT_DIM = 2\<rparr>"

definition radius_10_layout :: constants where
  "radius_10_layout = sample_layout\<lparr>FINDER_RADIUS := 10\<rparr>"

text \<open>
  A matrix is mirror symmetric about a centre when any two pixels of the plane that are
  octant mirrors of each other about that centre have the same value.
\<close>

definition mirror_symmetric :: "Point \<Rightarrow> BitMatrix \<Rightarrow> bool" where
  "mirror_symmetric c m =
     (\<forall>a b p q. (p, q) \<in> set (octants c a b) \<longrightarrow> in_range m p q \<longrightarrow>
        in_range m (pt_x c + a) (pt_y c + b) \<longrightarrow>
        BitMatrix_get m p q = BitMatrix_get m (pt_x c + a) (pt_y c + b))"

text \<open>
  The radii of the finder and alignment patterns as the spec words them, to compare the
  loops of the writer with: the finder pattern fills the integer radii 0 to
  \<open>\<lfloor>3R/7\<rfloor>\<close> and \<open>\<lfloor>5R/7\<rfloor> + 1\<close> to \<open>R\<close>, the alignment pattern the integer radii
  \<open>\<lfloor>3R/7\<rfloor> + 1\<close> to \<open>\<lfloor>5R/7\<rfloor>\<close>, for \<open>R = FINDER_RADIUS\<close>.
\<close>

definition spec_finder_radii :: "constants \<Rightarrow> number list" where
  "spec_finder_radii K =
     map of_int ([0..\<lfloor>3 * of_int (FINDER_RADIUS K) / (7 :: rat)\<rfloor>] @
                 [\<lfloor>5 * of_int (FINDER_RADIUS K) / (7 :: rat)\<rfloor> + 1..FINDER_RADIUS K])"

definition spec_alignment_radii :: "constants \<Rightarrow> number list" where
  "spec_alignment_radii K =
     map of_int [\<lfloor>3 * of_int (FINDER_RADIUS K) / (7 :: rat)\<rfloor> + 1..
                 \<lfloor>5 * of_int (FINDER_RADIUS K) / (7 :: rat)\<rfloor>]"

section \<open>Properties of the encoder\<close>

lemma MAPPING_TABLE_eq: "MAPPING_TABLE = map spec_symbol_code [0..<128]"
  by code_simp

lemma length_MAPPING_TABLE: "length MAPPING_TABLE = 128"
  by (simp add: MAPPING_TABLE_eq)

lemma table_lookup_eq:
  "table_lookup ch = (if ch < 128 then Some (spec_symbol_code ch) else None)"
  by (simp add: table_lookup_def MAPPING_TABLE_eq)

lemma length_u16_store [simp]: "length (u16_store a i v) = length a"
  by (simp add: u16_store_def)

lemma nth_u16_store:
  "k < length a \<Longrightarrow> u16_store a i v ! k = (if k = i then toUint16 v else a ! k)"
  by (simp add: u16_store_def)

lemma length_fold_store [simp]:
  "length (fold (\<lambda>i d. u16_store d (g i) (f i)) is d) = length d"
  by (induction "is" arbitrary: d) simp_all

lemma nth_fold_store:
  "k < length d \<Longrightarrow>
   fold (\<lambda>i d. u16_store d (i + off) (f i)) [0..<n] d ! k =
     (if off \<le> k \<and> k < n + off then toUint16 (f (k - off)) else d ! k)"
proof (induction n)
  case 0
  then show ?case by simp
next
  case (Suc n)
  then show ?case
    by (auto simp: nth_u16_store)
qed

lemma length_encode_data: "length (encode_data content) = 64"
  by (simp add: encode_data_def Let_def WIDTH_def HEIGHT_def)

lemma nth_encode_data:
  assumes "k < 64"
  shows "encode_data content ! k =
     (if 2 \<le> k \<and> k < length content + 2 then toUint16 (table_lookup (content ! (k - 2)))
      else if k = 0 then 0
      else if k = 1 then length content mod 65536
      else k)"
proof -
  have "fold (\<lambda>i d. u16_store d i (Some (int i))) [0..<64] (replicate 64 0) ! j = j"
    if "j < 64" for j
    using that nth_fold_store [of j "replicate 64 0" 0 "\<lambda>i. Some (int i)" 64]
    by (simp add: toUint16_def nat_mod_distrib)
  then show ?thesis
    using assms nth_fold_store [of k _ 2 "\<lambda>i. table_lookup (content ! i)" "length content"]
    by (simp add: encode_data_def Let_def WIDTH_def HEIGHT_def VERSION_def nth_u16_store
        toUint16_def nat_mod_distrib)
qed

lemma encode_Inr:
  "encode content = Inr g \<longleftrightarrow>
   g = [(''version'', Number VERSION), (''width'', Number WIDTH),
        (''height'', Number HEIGHT), (''data'', Uint16Array (encode_data content))]"
  by (auto simp: encode_def)

lemma encode_data_prop:
  "encode content = Inr g \<Longrightarrow> get_prop g ''data'' = Uint16Array (encode_data content)"
  by (simp add: encode_Inr get_prop_def)

lemma symbol_code_alnum:
  "alphanumeric ch \<Longrightarrow> toUint16 (table_lookup ch) = nat (spec_symbol_code ch)"
  "alphanumeric ch \<Longrightarrow> 0 \<le> spec_symbol_code ch \<and> spec_symbol_code ch \<le> 61"
  by (auto simp: alphanumeric_def table_lookup_eq toUint16_def spec_symbol_code_def)

text \<open>
  Claim C1. For every content of at most 62 characters, all of them ASCII digits or
  letters, \<open>encode\<close> returns a grid of 64 cells in which cell 0 is \<open>VERSION\<close>, cell 1 is the
  number of characters, cell \<open>i + 2\<close> is the symbol code of character \<open>i\<close> by the spec's
  table, and every cell from \<open>length content + 2\<close> on holds its own index.
\<close>

theorem encode_valid_content:
  assumes "length content \<le> 62" and "\<forall>ch\<in>set content. alphanumeric ch"
  shows "\<exists>g d. encode content = Inr g \<and> get_prop g ''data'' = Uint16Array d \<and>
           length d = 64 \<and> int (d ! 0) = VERSION \<and> d ! 1 = length content \<and>
           (\<forall>i<length content. int (d ! (i + 2)) = spec_symbol_code (content ! i)) \<and>
           (\<forall>i. length content + 2 \<le> i \<and> i < 64 \<longrightarrow> d ! i = i)"
proof -
  obtain g where g: "encode content = Inr g"
    by (simp add: encode_def)
  let ?d = "encode_data content"
  have "int (?d ! 0) = VERSION"
    by (simp add: nth_encode_data VERSION_def)
  moreover have "?d ! 1 = length content"
    using assms(1) by (simp add: nth_encode_data)
  moreover have "int (?d ! (i + 2)) = spec_symbol_code (content ! i)" if "i < length content" for i
  proof -
    have "alphanumeric (content ! i)"
      using assms(2) that by simp
    then show ?thesis
      using that assms(1) by (simp add: nth_encode_data symbol_code_alnum)
  qed
  moreover have "?d ! i = i" if "length content + 2 \<le> i \<and> i < 64" for i
    using that by (simp add: nth_encode_data)
  ultimately show ?thesis
    using g encode_data_prop [OF g] length_encode_data [of content] by blast
qed

text \<open>The content \<open>aZ9\<close>: cells 0, 3, 0, 51, 61, then the fillers 5 to 63.\<close>

theorem encode_valid_content_witness:
  "\<exists>g d. encode [97, 90, 57] = Inr g \<and> get_prop g ''data'' = Uint16Array d \<and>
     length d = 64 \<and> d ! 0 = 0 \<and> d ! 1 = 3 \<and> d ! 2 = 0 \<and> d ! 3 = 51 \<and> d ! 4 = 61 \<and>
     d ! 5 = 5 \<and> d ! 63 = 63"
proof -
  have "length [97, 90, 57 :: nat] \<le> 62" and "\<forall>ch\<in>set [97, 90, 57]. alphanumeric ch"
    by (simp_all add: alphanumeric_def)
  from encode_valid_content [OF this]
  obtain g d where e: "encode [97, 90, 57] = Inr g" "get_prop g ''data'' = Uint16Array d"
    "length d = 64" "int (d ! 0) = VERSION" "d ! 1 = length [97, 90, 57 :: nat]"
    and c: "\<forall>i<length [97, 90, 57 :: nat]. int (d ! (i + 2)) = spec_symbol_code ([97, 90, 57] ! i)"
    and f: "\<forall>i. length [97, 90, 57 :: nat] + 2 \<le> i \<and> i < 64 \<longrightarrow> d ! i = i"
    by blast
  from c [rule_format, of 0] c [rule_format, of 1] c [rule_format, of 2]
  have "d ! 2 = 0" "d ! 3 = 51" "d ! 4 = 61"
    by (simp_all add: spec_symbol_code_def del: add_2_eq_Suc add_2_eq_Suc')
  moreover from f [rule_format, of 5] f [rule_format, of 63] have "d ! 5 = 5" "d ! 63 = 63"
    by simp_all
  ultimately show ?thesis
    using e by (auto simp: VERSION_def)
qed

text \<open>
  Claim C2, as the code has it. \<open>encode\<close> has no length check: for a content of more than
  62 characters it returns a grid all the same. Cell 0 is \<open>VERSION\<close>, cell 1 the length
  modulo \<open>2^16\<close>, cells 2 to 63 the stored table entries of the first 62 characters; the
  stores for the characters from position 62 on fall outside the array and are dropped.
\<close>

theorem encode_too_long:
  assumes "length content > 62"
  shows "\<exists>g. encode content = Inr g \<and>
           get_prop g ''data'' =
             Uint16Array ([nat VERSION, length content mod 65536] @
                          map (\<lambda>ch. toUint16 (table_lookup ch)) (take 62 content))"
proof -
  obtain g where g: "encode content = Inr g"
    by (simp add: encode_def)
  have "encode_data content =
          [nat VERSION, length content mod 65536] @
          map (\<lambda>ch. toUint16 (table_lookup ch)) (take 62 content)"
    using assms
    by (intro nth_equalityI)
       (auto simp: length_encode_data nth_encode_data nth_Cons nth_append VERSION_def
             split: nat.splits)
  then show ?thesis
    using g encode_data_prop [OF g] by auto
qed

text \<open>A content of 63 letters \<open>a\<close> is not rejected.\<close>

theorem encode_too_long_counterexample:
  "length (replicate 63 (97::nat)) > 62 \<and> encode (replicate 63 97) \<noteq> Inl ContentTooLong"
  by (simp add: encode_def)

text \<open>For that content the grid is: version 0, length 63, then 62 times the code 0 of \<open>a\<close>.\<close>

theorem encode_too_long_witness:
  "\<exists>g. encode (replicate 63 97) = Inr g \<and>
     get_prop g ''data'' = Uint16Array (0 # 63 # replicate 62 0)"
proof -
  have "toUint16 (table_lookup 97) = 0"
    by (simp add: table_lookup_eq toUint16_def spec_symbol_code_def)
  then show ?thesis
    using encode_too_long [of "replicate 63 97"] by (simp add: VERSION_def)
qed

text \<open>
  Claim C3, as the code has it. \<open>encode\<close> validates no character: a content with a
  character that is not an ASCII digit or letter is encoded like any other. Every character
  at a position below 62 is packed into its cell: a mapped character as its symbol code, an
  unmapped character of the table's range as 65535 and a character beyond the table as 0.
\<close>

theorem encode_unsupported:
  assumes "\<exists>ch\<in>set content. \<not> alphanumeric ch"
  shows "\<exists>g d. encode content = Inr g \<and> get_prop g ''data'' = Uint16Array d \<and>
           (\<forall>i. i < length content \<and> i < 62 \<longrightarrow>
              d ! (i + 2) =
                (if alphanumeric (content ! i) then nat (spec_symbol_code (content ! i))
                 else if content ! i < 128 then 65535 else 0))"
proof -
  obtain g where g: "encode content = Inr g"
    by (simp add: encode_def)
  have "encode_data content ! (i + 2) =
          (if alphanumeric (content ! i) then nat (spec_symbol_code (content ! i))
           else if content ! i < 128 then 65535 else 0)"
    if "i < length content \<and> i < 62" for i
  proof -
    have "encode_data content ! (i + 2) = toUint16 (table_lookup (content ! i))"
      using that by (simp add: nth_encode_data)
    then show ?thesis
      by (auto simp: symbol_code_alnum toUint16_def table_lookup_eq spec_symbol_code_def
          alphanumeric_def)
  qed
  then show ?thesis
    using g encode_data_prop [OF g] by auto
qed

text \<open>The one-character content \<open>!\<close> (code 33, table entry \<open>-1\<close>) is not rejected.\<close>

theorem encode_unsupported_counterexample:
  "\<not> alphanumeric 33 \<and> table_lookup 33 = Some (- 1) \<and> encode [33] \<noteq> Inl UnsupportedCharacter"
  by (simp add: encode_def alphanumeric_def table_lookup_eq spec_symbol_code_def)

text \<open>The content \<open>a!\<close> followed by the code unit 233: cells 0, 65535 and 0.\<close>

theorem encode_unsupported_witness:
  "\<exists>g d. encode [97, 33, 233] = Inr g \<and> get_prop g ''data'' = Uint16Array d \<and>
     d ! 2 = 0 \<and> d ! 3 = 65535 \<and> d ! 4 = 0"
proof -
  have "\<exists>ch\<in>set [97, 33, 233]. \<not> alphanumeric ch"
    by (simp add: alphanumeric_def)
  from encode_unsupported [OF this]
  obtain g d where e: "encode [97, 33, 233] = Inr g" "get_prop g ''data'' = Uint16Array d"
    and c: "\<forall>i. i < length [97, 33, 233 :: nat] \<and> i < 62 \<longrightarrow>
              d ! (i + 2) =
                (if alphanumeric ([97, 33, 233] ! i) then nat (spec_symbol_code ([97, 33, 233] ! i))
                 else if [97, 33, 233 :: nat] ! i < 128 then 65535 else 0)"
    by blast
  from c [rule_format, of 0] c [rule_format, of 1] c [rule_format, of 2]
  have "d ! 2 = 0" "d ! 3 = 65535" "d ! 4 = 0"
    by (simp_all add: alphanumeric_def spec_symbol_code_def del: add_2_eq_Suc add_2_eq_Suc')
  with e show ?thesis
    by blast
qed

text \<open>
  Claim C9. For every string whatsoever \<open>encode\<close> returns, and the data array of the grid
  has exactly 64 cells. The stores addressed past index 63 change nothing: the array is the
  one obtained from the first 62 characters alone, but for cell 1, which holds the length of
  the whole content modulo \<open>2^16\<close>.
\<close>

theorem encode_total:
  "\<exists>g d. encode content = Inr g \<and> get_prop g ''data'' = Uint16Array d \<and> length d = 64 \<and>
     d = (encode_data (take 62 content))[1 := length content mod 65536]"
proof -
  obtain g where g: "encode content = Inr g"
    by (simp add: encode_def)
  have "encode_data content = (encode_data (take 62 content))[1 := length content mod 65536]"
    by (rule nth_equalityI) (auto simp: length_encode_data nth_encode_data nth_list_update)
  then show ?thesis
    using g encode_data_prop [OF g] length_encode_data [of content] by auto
qed

text \<open>
  Claim C10. For a character at a position \<open>i\<close> below 62: when its table entry is \<open>-1\<close>,
  cell \<open>i + 2\<close> holds 65535; when its code is 128 or more, the table has no entry for it and
  the cell holds 0. A cell is a natural number, so neither value is negative.
\<close>

theorem encode_unmapped_cells:
  assumes "i < length content" and "i < 62"
  shows "\<exists>g d. encode content = Inr g \<and> get_prop g ''data'' = Uint16Array d \<and>
           (table_lookup (content ! i) = Some (- 1) \<longrightarrow> d ! (i + 2) = 65535) \<and>
           (128 \<le> content ! i \<longrightarrow> table_lookup (content ! i) = None \<and> d ! (i + 2) = 0)"
proof -
  obtain g where g: "encode content = Inr g"
    by (simp add: encode_def)
  have "encode_data content ! (i + 2) = toUint16 (table_lookup (content ! i))"
    using assms by (simp add: nth_encode_data)
  then show ?thesis
    using g encode_data_prop [OF g]
    by (auto simp: toUint16_def table_lookup_eq)
qed

text \<open>The content of code units 33 and 200: cell 2 holds 65535 and cell 3 holds 0.\<close>

theorem encode_unmapped_cells_witness:
  "(\<exists>g d. encode [33, 200] = Inr g \<and> get_prop g ''data'' = Uint16Array d \<and>
      table_lookup 33 = Some (- 1) \<and> d ! 2 = 65535) \<and>
   (\<exists>g d. encode [33, 200] = Inr g \<and> get_prop g ''data'' = Uint16Array d \<and>
      table_lookup 200 = None \<and> d ! 3 = 0)"
proof -
  have t: "table_lookup 33 = Some (- 1)" "table_lookup 200 = None"
    by (simp_all add: table_lookup_eq spec_symbol_code_def)
  show ?thesis
    using encode_unmapped_cells [of 0 "[33, 200]"] encode_unmapped_cells [of 1 "[33, 200]"] t
    by (simp del: add_2_eq_Suc add_2_eq_Suc')
qed

section \<open>Properties of the writer\<close>

subsection \<open>What the drawing primitives write\<close>

lemma in_range_set [simp]: "in_range (BitMatrix_set m x y color) p q = in_range m p q"
  by (simp add: BitMatrix_set_def in_range_def)

lemma dims_set [simp]:
  "height (BitMatrix_set m x y color) = height m"
  "width (BitMatrix_set m x y color) = width m"
  by (simp_all add: BitMatrix_set_def)

lemma floor_eq_integer:
  "is_integer p \<Longrightarrow> is_integer x \<Longrightarrow> \<lfloor>p\<rfloor> = \<lfloor>x\<rfloor> \<longleftrightarrow> p = x"
  by (metis is_integer_def)

lemma get_set:
  "BitMatrix_get (BitMatrix_set m x y color) p q =
     (if in_range m p q \<and> p = x \<and> q = y then color else BitMatrix_get m p q)"
proof (cases "in_range m x y")
  case False
  then show ?thesis
    by (auto simp: BitMatrix_set_def BitMatrix_get_def)
next
  case True
  show ?thesis
  proof (cases "in_range m p q")
    case False
    then show ?thesis
      by (simp add: BitMatrix_get_def)
  next
    case pq: True
    have "(\<lfloor>p\<rfloor> = \<lfloor>x\<rfloor> \<and> \<lfloor>q\<rfloor> = \<lfloor>y\<rfloor>) \<longleftrightarrow> (p = x \<and> q = y)"
      using True pq by (simp add: in_range_def floor_eq_integer)
    then show ?thesis
      using True pq
      by (auto simp: BitMatrix_set_def BitMatrix_get_def in_range_def)
  qed
qed

lemma in_range_set_pixels [simp]: "in_range (set_pixels ps color m) p q = in_range m p q"
  by (induction ps arbitrary: m) (simp_all add: set_pixels_def)

lemma dims_set_pixels [simp]:
  "height (set_pixels ps color m) = height m"
  "width (set_pixels ps color m) = width m"
  by (induction ps arbitrary: m) (simp_all add: set_pixels_def)

lemma set_pixels_Cons:
  "set_pixels (a # ps) color m = set_pixels ps color (BitMatrix_set m (fst a) (snd a) color)"
  by (simp add: set_pixels_def)

lemma set_pixels_append:
  "set_pixels (ps @ qs) color m = set_pixels qs color (set_pixels ps color m)"
  by (simp add: set_pixels_def)

lemma get_set_pixels:
  "BitMatrix_get (set_pixels ps color m) p q =
     (if in_range m p q \<and> (p, q) \<in> set ps then color else BitMatrix_get m p q)"
proof (induction ps arbitrary: m)
  case Nil
  then show ?case by (simp add: set_pixels_def)
next
  case (Cons a ps)
  show ?case
    by (cases a) (auto simp: set_pixels_Cons Cons.IH get_set)
qed

lemma fillRect_set_pixels: "fillRect x y w h color m = set_pixels (rect_pixels x y w h) color m"
proof -
  have inner: "fold (\<lambda>j m'. BitMatrix_set m' (x + of_nat j) (y + of_nat i) color) js m0 =
      set_pixels (map (\<lambda>j. (x + of_nat j, y + of_nat i)) js) color m0" for i js m0
    by (simp add: set_pixels_def fold_map comp_def)
  have outer: "fold (\<lambda>i. fold (\<lambda>j m'. BitMatrix_set m' (x + of_nat j) (y + of_nat i) color) js) is m0 =
      set_pixels (concat (map (\<lambda>i. map (\<lambda>j. (x + of_nat j, y + of_nat i)) js) is)) color m0"
    for js "is" m0
    by (induction "is" arbitrary: m0) (simp_all add: inner set_pixels_append, simp add: set_pixels_def)
  show ?thesis
    by (simp add: fillRect_def rect_pixels_def outer)
qed

lemma setPixelSymmetricOctant_set_pixels:
  "setPixelSymmetricOctant c x y color m = set_pixels (octants c x y) color m"
  by (simp add: setPixelSymmetricOctant_def octants_def set_pixels_def Let_def)

lemma in_rect_pixels:
  "(p, q) \<in> set (rect_pixels x y w h) \<longleftrightarrow>
     (\<exists>i j. i < nat h \<and> j < nat w \<and> p = x + of_nat j \<and> q = y + of_nat i)"
  by (force simp: rect_pixels_def image_iff)

subsection \<open>The size of the bitmap\<close>

lemma dims_fillRect [simp]:
  "height (fillRect x y w h color m) = height m"
  "width (fillRect x y w h color m) = width m"
  by (simp_all add: fillRect_set_pixels)

lemma dims_drawSymbol [simp]:
  "height (drawSymbol K row col v m) = height m \<and> width (drawSymbol K row col v m) = width m"
  unfolding drawSymbol_def
  by (rule fold_invariant [where Q = "\<lambda>_. True"]) (simp_all add: drawSymbol_bit_def Let_def)

lemma dims_setPixelSymmetricOctant [simp]:
  "height (setPixelSymmetricOctant c x y color m) = height m"
  "width (setPixelSymmetricOctant c x y color m) = width m"
  by (simp_all add: setPixelSymmetricOctant_set_pixels)

lemma dims_circle_loop:
  "height (circle_loop c r color x y dx dy err m) = height m \<and>
   width (circle_loop c r color x y dx dy err m) = width m"
proof (induction c r color x y dx dy err m rule: circle_loop.induct)
  case (1 c r color x y dx dy err m)
  show ?case
  proof (cases "x \<ge> y")
    case False
    then show ?thesis by (simp add: circle_loop.simps [of c r color x y])
  next
    case True
    then show ?thesis
      using "1.IH" [OF True refl]
      by (cases "err \<le> 0") (simp_all add: circle_loop.simps [of c r color x y] Let_def)
  qed
qed

lemma dims_drawCircle [simp]:
  "height (drawCircle c r color m) = height m"
  "width (drawCircle c r color m) = width m"
  by (simp_all add: drawCircle_def dims_circle_loop)

lemma for_upto_invariant_aux:
  "(\<forall>j s'. P s' \<longrightarrow> P (body j s')) \<Longrightarrow> P s \<Longrightarrow> P (for_upto i hi body s)"
proof (induction i hi body s rule: for_upto.induct)
  case (1 i hi body s)
  show ?case
  proof (cases "i \<le> hi")
    case True
    have "P (body i s)"
      using "1.prems" by blast
    then show ?thesis
      using True "1.IH" [OF True "1.prems"(1)] by (simp add: for_upto.simps [of i hi])
  next
    case False
    then show ?thesis
      using "1.prems"(2) by (simp add: for_upto.simps [of i hi])
  qed
qed

lemma for_upto_invariant:
  assumes "\<And>j s'. P s' \<Longrightarrow> P (body j s')" and "P s"
  shows "P (for_upto i hi body s)"
  by (rule for_upto_invariant_aux) (use assms in blast)+

lemma dims_finder_loops:
  "height (drawFinderPattern K c m) = height m \<and> width (drawFinderPattern K c m) = width m"
  unfolding drawFinderPattern_def finder_loops_def Let_def
  by (rule for_upto_invariant [where P = "\<lambda>m'. height m' = height m \<and> width m' = width m"],
      simp, rule for_upto_invariant, simp_all)

lemma dims_alignment_loop:
  "height (drawAlignmentPattern K c m) = height m \<and>
   width (drawAlignmentPattern K c m) = width m"
  unfolding drawAlignmentPattern_def alignment_loop_def Let_def
  by (rule for_upto_invariant [where P = "\<lambda>m'. height m' = height m \<and> width m' = width m"])
     simp_all

lemma dims_symbols:
  "height (fold (\<lambda>i. fold (\<lambda>j. drawSymbol K (f i) (g j) (v i j)) js) is m) = height m \<and>
   width (fold (\<lambda>i. fold (\<lambda>j. drawSymbol K (f i) (g j) (v i j)) js) is m) = width m"
  by (rule fold_invariant [where Q = "\<lambda>_. True"], simp, simp,
      rule fold_invariant [where Q = "\<lambda>_. True"], simp_all add: dims_drawSymbol)

lemma dims_render_grid:
  "height (matrix (render_grid K rows cols d)) =
     rows * SYMBOL_DIM K + (rows - 1) * GAP_DIM K + GRID_OFFSET K * 2"
  "width (matrix (render_grid K rows cols d)) =
     cols * SYMBOL_DIM K + (cols - 1) * GAP_DIM K + GRID_OFFSET K * 2"
  by (simp_all add: render_grid_def Let_def dims_symbols dims_finder_loops dims_alignment_loop
      BitMatrix_new_def)

text \<open>
  Claim C5. For every grid object whose \<open>rows\<close> and \<open>cols\<close> are the numbers \<open>r\<close> and \<open>c\<close>
  and whose \<open>data\<close> is an array, \<open>render\<close> returns a bitmap of height
  \<open>r * SYMBOL_DIM + (r - 1) * GAP_DIM + 2 * GRID_OFFSET\<close> and of width
  \<open>c * SYMBOL_DIM + (c - 1) * GAP_DIM + 2 * GRID_OFFSET\<close>: no drawing step changes the size
  the matrix was made with.
\<close>

theorem render_dimensions:
  assumes "get_prop code ''rows'' = Number r" and "get_prop code ''cols'' = Number c"
    and "get_prop code ''data'' = Uint16Array d"
  shows "\<exists>img. render K code = Bitmap img \<and>
           height (matrix img) = r * SYMBOL_DIM K + (r - 1) * GAP_DIM K + 2 * GRID_OFFSET K \<and>
           width (matrix img) = c * SYMBOL_DIM K + (c - 1) * GAP_DIM K + 2 * GRID_OFFSET K"
  using assms by (simp add: render_def toNumber_def dims_render_grid)

text \<open>An 8 by 8 grid in the sample layout: 324 by 324 pixels.\<close>

theorem render_dimensions_witness:
  "\<exists>img. render sample_layout
            [(''version'', Number 0), (''rows'', Number 8), (''cols'', Number 8),
             (''data'', Uint16Array (encode_data [97, 90, 57]))] = Bitmap img \<and>
     height (matrix img) = 324 \<and> width (matrix img) = 324"
  using render_dimensions [where K = sample_layout and r = 8 and c = 8
      and d = "encode_data [97, 90, 57]"
      and code = "[(''version'', Number 0), (''rows'', Number 8), (''cols'', Number 8),
             (''data'', Uint16Array (encode_data [97, 90, 57]))]"]
  by (simp add: get_prop_def sample_layout_def)

text \<open>
  Claim C4, on the code. The object that \<open>encode\<close> returns carries the grid size under the
  names \<open>width\<close> and \<open>height\<close>; \<open>render\<close> reads \<open>rows\<close> and \<open>cols\<close>, which that object
  does not have. So for every content the two counts read as \<open>undefined\<close>, not as 8: the
  image height and width are both \<open>NaN\<close>, no symbol is drawn, and \<open>render\<close> applied to the
  result of \<open>encode\<close> returns the image of a matrix made with these two sizes, not a bitmap
  of 8 by 8 symbols.
\<close>

theorem render_after_encode:
  "\<exists>g. encode content = Inr g \<and> get_prop g ''rows'' = Undefined \<and>
     get_prop g ''cols'' = Undefined \<and> get_prop g ''height'' = Number 8 \<and>
     get_prop g ''width'' = Number 8 \<and> render K g = NaN_sized None None"
  by (simp add: encode_def render_def toNumber_def get_prop_def HEIGHT_def WIDTH_def)

subsection \<open>Symbols\<close>

lemma mask_and_bit_zero_iff:
  assumes "b < 32"
  shows "mask_and_bit (Some v) b = 0 \<longleftrightarrow> \<not> bit v b"
proof -
  have "mask_and_bit (Some v) b = (of_nat v :: 32 word) AND push_bit b 1"
    using assms by (simp add: mask_and_bit_def toInt32_def)
  also have "\<dots> = 0 \<longleftrightarrow> \<not> bit (of_nat v :: 32 word) b"
    by (simp add: and_exp_eq_0_iff_not_bit)
  also have "bit (of_nat v :: 32 word) b \<longleftrightarrow> bit v b"
    using assms by (simp add: bit_of_nat_iff)
  finally show ?thesis .
qed

lemma in_range_drawSymbol_bit [simp]:
  "in_range (drawSymbol_bit K X Y v b m) p q = in_range m p q"
  by (simp add: drawSymbol_bit_def Let_def fillRect_set_pixels)

lemma in_range_fold_drawSymbol_bit [simp]:
  "in_range (fold (drawSymbol_bit K X Y v) bs m) p q = in_range m p q"
  by (induction bs arbitrary: m) simp_all

text \<open>Rows of a rectangle.\<close>

lemma rect_pixels_row:
  "(of_int px, of_int py) \<in> set (rect_pixels x (of_int y0) w h) \<Longrightarrow> y0 \<le> py \<and> py < y0 + h"
proof -
  assume "(of_int px, of_int py) \<in> set (rect_pixels x (of_int y0) w h)"
  then obtain i where ij: "i < nat h" "(of_int py :: rat) = of_int y0 + of_nat i"
    by (auto simp: in_rect_pixels)
  then have "(of_int py :: rat) = of_int (y0 + int i)"
    by simp
  then have "py = y0 + int i"
    by (simp only: of_int_eq_iff)
  with ij(1) show ?thesis
    by auto
qed

lemma rect_pixels_int:
  "(of_int px, of_int py) \<in> set (rect_pixels (of_int x0) (of_int y0) w h) \<longleftrightarrow>
     x0 \<le> px \<and> px < x0 + w \<and> y0 \<le> py \<and> py < y0 + h"
proof
  assume "(of_int px, of_int py) \<in> set (rect_pixels (of_int x0) (of_int y0) w h)"
  then obtain i j where ij: "i < nat h" "j < nat w"
    "(of_int px :: rat) = of_int x0 + of_nat j" "(of_int py :: rat) = of_int y0 + of_nat i"
    by (auto simp: in_rect_pixels)
  then have "(of_int px :: rat) = of_int (x0 + int j)" "(of_int py :: rat) = of_int (y0 + int i)"
    by simp_all
  then have "px = x0 + int j" "py = y0 + int i"
    by (simp_all only: of_int_eq_iff)
  with ij(1,2) show "x0 \<le> px \<and> px < x0 + w \<and> y0 \<le> py \<and> py < y0 + h"
    by auto
next
  assume a: "x0 \<le> px \<and> px < x0 + w \<and> y0 \<le> py \<and> py < y0 + h"
  then have "nat (py - y0) < nat h \<and> nat (px - x0) < nat w \<and>
     (of_int px :: rat) = of_int x0 + of_nat (nat (px - x0)) \<and>
     (of_int py :: rat) = of_int y0 + of_nat (nat (py - y0))"
    by auto
  then show "(of_int px, of_int py) \<in> set (rect_pixels (of_int x0) (of_int y0) w h)"
    unfolding in_rect_pixels by blast
qed

lemma get_drawSymbol_bit_other:
  assumes "\<not> (Y + UNIT_DIM K * int b * 2 \<le> py \<and> py < Y + UNIT_DIM K * int b * 2 + UNIT_DIM K)"
  shows "BitMatrix_get (drawSymbol_bit K X Y v b m) (of_int px) (of_int py) =
         BitMatrix_get m (of_int px) (of_int py)"
proof -
  have "(of_int px, of_int py) \<notin> set (rect_pixels x (of_int (Y + UNIT_DIM K * int b * 2)) w (UNIT_DIM K))"
    for x w
    using assms rect_pixels_row by blast
  then show ?thesis
    by (simp add: drawSymbol_bit_def Let_def fillRect_set_pixels get_set_pixels)
qed

lemma half_even:
  assumes "even (u::int)"
  shows "(of_int u :: rat) * (9 / 2) = of_int (9 * (u div 2))"
proof -
  from assms obtain k where "u = 2 * k" ..
  then show ?thesis by simp
qed

lemma get_drawSymbol_bit_bar:
  assumes "even (UNIT_DIM K)"
    and "Y + UNIT_DIM K * int b * 2 \<le> py" "py < Y + UNIT_DIM K * int b * 2 + UNIT_DIM K"
    and "X \<le> px" "px < X + SYMBOL_DIM K"
    and "in_range m (of_int px) (of_int py)"
  shows "BitMatrix_get (drawSymbol_bit K X Y v b m) (of_int px) (of_int py) =
         (\<not> (mask_and_bit v b = 0 \<and> X + 9 * (UNIT_DIM K div 2) \<le> px \<and>
              px < X + 9 * (UNIT_DIM K div 2) + UNIT_DIM K * 2))"
proof -
  have "of_int X + of_int (UNIT_DIM K) * (9 / 2) = (of_int (X + 9 * (UNIT_DIM K div 2)) :: rat)"
    unfolding half_even [OF assms(1)] by simp
  then have notch:
    "(of_int px, of_int py) \<in> set (rect_pixels (of_int X + of_int (UNIT_DIM K) * (9 / 2))
        (of_int (Y + UNIT_DIM K * int b * 2)) (UNIT_DIM K * 2) (UNIT_DIM K)) \<longleftrightarrow>
     X + 9 * (UNIT_DIM K div 2) \<le> px \<and> px < X + 9 * (UNIT_DIM K div 2) + UNIT_DIM K * 2"
    using assms(2,3) by (simp only: rect_pixels_int) simp
  have bar:
    "(of_int px, of_int py) \<in> set (rect_pixels (of_int X)
        (of_int (Y + UNIT_DIM K * int b * 2)) (SYMBOL_DIM K) (UNIT_DIM K))"
    using assms(2-5) by (simp only: rect_pixels_int)
  show ?thesis
  proof (cases "mask_and_bit v b = 0")
    case True
    then show ?thesis
      by (simp only: drawSymbol_bit_def Let_def simp_thms if_True if_False fillRect_set_pixels
          get_set_pixels in_range_set_pixels bar notch assms(6)) simp
  next
    case False
    then show ?thesis
      by (simp only: drawSymbol_bit_def Let_def simp_thms if_True if_False fillRect_set_pixels
          get_set_pixels in_range_set_pixels bar assms(6))
  qed
qed

lemma get_fold_drawSymbol_bit_other:
  assumes "0 < UNIT_DIM K" "b \<notin> set bs"
    and "Y + UNIT_DIM K * int b * 2 \<le> py" "py < Y + UNIT_DIM K * int b * 2 + UNIT_DIM K"
  shows "BitMatrix_get (fold (drawSymbol_bit K X Y v) bs m) (of_int px) (of_int py) =
         BitMatrix_get m (of_int px) (of_int py)"
  using assms(2)
proof (induction bs arbitrary: m)
  case Nil
  then show ?case by simp
next
  case (Cons a bs)
  then have ab: "a \<noteq> b" and nb: "b \<notin> set bs"
    by auto
  have "\<not> (Y + UNIT_DIM K * int a * 2 \<le> py \<and> py < Y + UNIT_DIM K * int a * 2 + UNIT_DIM K)"
  proof (cases "a < b")
    case True
    then have "int a + 1 \<le> int b" by simp
    then have "UNIT_DIM K * (int a + 1) \<le> UNIT_DIM K * int b"
      using assms(1) by (intro mult_left_mono) simp_all
    then show ?thesis
      using assms(1,3) by (simp add: algebra_simps)
  next
    case False
    with ab have "int b + 1 \<le> int a" by simp
    then have "UNIT_DIM K * (int b + 1) \<le> UNIT_DIM K * int a"
      using assms(1) by (intro mult_left_mono) simp_all
    then show ?thesis
      using assms(1,4) by (simp add: algebra_simps)
  qed
  then show ?case
    using Cons.IH [OF nb] by (simp add: get_drawSymbol_bit_other)
qed

lemma notch_columns:
  assumes "even (u::int)"
  shows "(of_int X + 9 / 2 * of_int u \<le> (of_int px :: rat) \<and>
          (of_int px :: rat) < of_int X + 9 / 2 * of_int u + 2 * of_int u) \<longleftrightarrow>
         (X + 9 * (u div 2) \<le> px \<and> px < X + 9 * (u div 2) + u * 2)"
proof -
  from assms obtain k where k: "u = 2 * k" ..
  have "(of_int X + 9 / 2 * of_int u \<le> (of_int px :: rat)) \<longleftrightarrow>
        ((of_int (X + 9 * k) :: rat) \<le> of_int px)"
    by (simp add: k)
  moreover have "((of_int px :: rat) < of_int X + 9 / 2 * of_int u + 2 * of_int u) \<longleftrightarrow>
        ((of_int px :: rat) < of_int (X + 9 * k + 4 * k))"
    by (simp add: k)
  ultimately show ?thesis
    unfolding of_int_le_iff of_int_less_iff by (simp add: k)
qed

lemma get_drawSymbol_bit_band:
  assumes "Y + UNIT_DIM K * int b * 2 \<le> py" "py < Y + UNIT_DIM K * int b * 2 + UNIT_DIM K"
    and "X \<le> px" "px < X + SYMBOL_DIM K"
    and "in_range m (of_int px) (of_int py)"
  shows "BitMatrix_get (drawSymbol_bit K X Y v b m) (of_int px) (of_int py) =
         (\<not> (mask_and_bit v b = 0 \<and>
              (of_int px, of_int py) \<in> set (rect_pixels (of_int X + of_int (UNIT_DIM K) * (9 / 2))
                (of_int (Y + UNIT_DIM K * int b * 2)) (UNIT_DIM K * 2) (UNIT_DIM K))))"
proof -
  have bar:
    "(of_int px, of_int py) \<in> set (rect_pixels (of_int X)
        (of_int (Y + UNIT_DIM K * int b * 2)) (SYMBOL_DIM K) (UNIT_DIM K))"
    using assms(1-4) by (simp only: rect_pixels_int)
  show ?thesis
  proof (cases "mask_and_bit v b = 0")
    case True
    then show ?thesis
      by (simp only: drawSymbol_bit_def Let_def simp_thms if_True if_False fillRect_set_pixels
          get_set_pixels in_range_set_pixels bar assms(5)) simp
  next
    case False
    then show ?thesis
      by (simp only: drawSymbol_bit_def Let_def simp_thms if_True if_False fillRect_set_pixels
          get_set_pixels in_range_set_pixels bar assms(5))
  qed
qed

lemma drawSymbol_pixel:
  assumes "b < BITS_PER_SYMBOL K"
    and "startY K row + UNIT_DIM K * int b * 2 \<le> py"
    and "py < startY K row + UNIT_DIM K * int b * 2 + UNIT_DIM K"
    and "startX K col \<le> px" and "px < startX K col + SYMBOL_DIM K"
    and "in_range m (of_int px) (of_int py)"
  shows "BitMatrix_get (drawSymbol K row col v m) (of_int px) (of_int py) =
         (\<not> (mask_and_bit v b = 0 \<and>
              (of_int px, of_int py) \<in>
                set (rect_pixels (of_int (startX K col) + of_int (UNIT_DIM K) * (9 / 2))
                  (of_int (startY K row + UNIT_DIM K * int b * 2))
                  (UNIT_DIM K * 2) (UNIT_DIM K))))"
proof -
  let ?step = "drawSymbol_bit K (startX K col) (startY K row) v"
  let ?n = "BITS_PER_SYMBOL K"
  have pos: "0 < UNIT_DIM K"
    using assms(2,3) by simp
  have split: "[0..<?n] = [0..<b] @ b # [Suc b..<?n]"
    using assms(1) upt_add_eq_append [of 0 b "?n - b"] by (simp add: upt_conv_Cons)
  let ?m1 = "fold ?step [0..<b] m"
  have "BitMatrix_get (drawSymbol K row col v m) (of_int px) (of_int py) =
        BitMatrix_get (fold ?step [Suc b..<?n] (?step b ?m1)) (of_int px) (of_int py)"
    unfolding drawSymbol_def by (subst split) simp
  also have "\<dots> = BitMatrix_get (?step b ?m1) (of_int px) (of_int py)"
    using pos assms(2,3) by (intro get_fold_drawSymbol_bit_other) simp_all
  also have "\<dots> = (\<not> (mask_and_bit v b = 0 \<and>
              (of_int px, of_int py) \<in>
                set (rect_pixels (of_int (startX K col) + of_int (UNIT_DIM K) * (9 / 2))
                  (of_int (startY K row + UNIT_DIM K * int b * 2))
                  (UNIT_DIM K * 2) (UNIT_DIM K))))"
    using assms(2-6) by (intro get_drawSymbol_bit_band) simp_all
  finally show ?thesis .
qed




subsection \<open>Loops over radii\<close>

lemma for_upto_fold:
  "for_upto i hi body s = fold body (map (\<lambda>k. i + of_nat k) [0..<nat (\<lfloor>hi - i\<rfloor> + 1)]) s"
proof (induction i hi body s rule: for_upto.induct)
  case (1 i hi body s)
  show ?case
  proof (cases "i \<le> hi")
    case False
    then have "\<lfloor>hi - i\<rfloor> < 0"
      by simp
    then have "nat (\<lfloor>hi - i\<rfloor> + 1) = 0"
      by linarith
    then show ?thesis
      using False by (simp add: for_upto.simps [of i hi])
  next
    case True
    define n where "n = nat \<lfloor>hi - i\<rfloor>"
    have n: "nat (\<lfloor>hi - i\<rfloor> + 1) = Suc n"
      using True by (simp add: n_def nat_add_distrib)
    have n': "nat (\<lfloor>hi - (i + 1)\<rfloor> + 1) = n"
      by (simp add: n_def diff_diff_eq [symmetric])
    have "map (\<lambda>k. i + of_nat k) [0..<Suc n] = i # map (\<lambda>k. i + 1 + of_nat k) [0..<n]"
      by (simp add: upt_conv_Cons map_Suc_upt [symmetric] add.assoc del: upt_Suc)
    then show ?thesis
      using True "1.IH" [OF True] by (simp add: for_upto.simps [of i hi] n n')
  qed
qed

lemma fold_snoc: "fold (\<lambda>i acc. acc @ [i]) xs acc = acc @ xs"
  by (induction xs arbitrary: acc) simp_all

lemma loop_values: "for_upto i hi (\<lambda>j acc. acc @ [j]) acc =
    acc @ map (\<lambda>k. i + of_nat k) [0..<nat (\<lfloor>hi - i\<rfloor> + 1)]"
  by (simp add: for_upto_fold fold_snoc)

lemma for_upto_values:
  "for_upto i hi body s = fold body (for_upto i hi (\<lambda>j acc. acc @ [j]) []) s"
  by (simp add: loop_values) (rule for_upto_fold)

lemma upt_upto: "map (\<lambda>k. f (int k)) [0..<nat n] = map f [0..n - 1]"
proof (cases "0 \<le> n")
  case False
  then show ?thesis by simp
next
  case True
  have "map (\<lambda>k. f (int k)) [0..<m] = map f [0..int m - 1]" for m
  proof (induction m)
    case 0
    then show ?case by simp
  next
    case (Suc m)
    have "[0..int (Suc m) - 1] = [0..int m - 1] @ [int m]"
      using upto_rec2 [of 0 "int m"] by simp
    then show ?case
      using Suc by simp
  qed
  from this [of "nat n"] True show ?thesis
    by simp
qed

lemma upto_shift: "map (\<lambda>k. f (k + c)) [i..j] = map f [i + c..j + c]"
proof (induction i j rule: upto.induct)
  case (1 i j)
  show ?case
  proof (cases "i \<le> j")
    case True
    have "[i..j] = i # [i + 1..j]"
      using True by (rule upto_rec1)
    moreover have "[i + c..j + c] = (i + c) # [i + 1 + c..j + c]"
      using True upto_rec1 [of "i + c" "j + c"] by (simp add: add.commute add.left_commute)
    ultimately show ?thesis
      using "1.IH" [OF True] by simp
  next
    case False
    then show ?thesis by simp
  qed
qed

lemma finder_radii_eq:
  "finder_radii K =
     map of_int [0..\<lfloor>of_int (FINDER_RADIUS K) * 3 / (7 :: rat)\<rfloor>] @
     map (\<lambda>k. of_int (FINDER_RADIUS K) * 5 / 7 + of_int k)
       [1..\<lfloor>of_int (FINDER_RADIUS K) * 2 / (7 :: rat)\<rfloor>]"
proof -
  define R :: rat where "R = of_int (FINDER_RADIUS K)"
  have a: "map (\<lambda>k. 0 + rat_of_nat k) [0..<nat (\<lfloor>R * 3 / 7 - 0\<rfloor> + 1)] =
        map of_int [0..\<lfloor>R * 3 / 7\<rfloor>]"
    using upt_upto [of of_int "\<lfloor>R * 3 / 7\<rfloor> + 1"] by simp
  have "R - (R * 5 / 7 + 1) = R * 2 / 7 - 1"
    by (simp add: field_simps)
  then have "\<lfloor>R - (R * 5 / 7 + 1)\<rfloor> = \<lfloor>R * 2 / 7 - 1\<rfloor>"
    by (simp only:)
  then have n: "\<lfloor>R - (R * 5 / 7 + 1)\<rfloor> + 1 = \<lfloor>R * 2 / 7\<rfloor>"
    using floor_diff_one [of "R * 2 / 7"] by linarith
  have "map (\<lambda>k. R * 5 / 7 + 1 + rat_of_nat k) [0..<nat \<lfloor>R * 2 / 7\<rfloor>] =
        map (\<lambda>j. R * 5 / 7 + of_int (j + 1)) [0..\<lfloor>R * 2 / 7\<rfloor> - 1]"
    using upt_upto [of "\<lambda>j. R * 5 / 7 + 1 + of_int j" "\<lfloor>R * 2 / 7\<rfloor>"]
    by (simp add: add.assoc add.commute)
  also have "\<dots> = map (\<lambda>j. R * 5 / 7 + of_int j) [1..\<lfloor>R * 2 / 7\<rfloor>]"
    using upto_shift [of "\<lambda>j. R * 5 / 7 + of_int j" 1 0 "\<lfloor>R * 2 / 7\<rfloor> - 1"] by simp
  finally show ?thesis
    unfolding finder_radii_def finder_loops_def Let_def loop_values R_def [symmetric] n a
    by simp
qed

lemma alignment_radii_eq:
  "alignment_radii K =
     map (\<lambda>k. of_int (FINDER_RADIUS K) * 3 / 7 + of_int k)
       [1..\<lfloor>of_int (FINDER_RADIUS K) * 2 / (7 :: rat)\<rfloor>]"
proof -
  define R :: rat where "R = of_int (FINDER_RADIUS K)"
  have "R * 5 / 7 - (R * 3 / 7 + 1) = R * 2 / 7 - 1"
    by (simp add: field_simps)
  then have "\<lfloor>R * 5 / 7 - (R * 3 / 7 + 1)\<rfloor> = \<lfloor>R * 2 / 7 - 1\<rfloor>"
    by (simp only:)
  then have n: "\<lfloor>R * 5 / 7 - (R * 3 / 7 + 1)\<rfloor> + 1 = \<lfloor>R * 2 / 7\<rfloor>"
    using floor_diff_one [of "R * 2 / 7"] by linarith
  have "map (\<lambda>k. R * 3 / 7 + 1 + rat_of_nat k) [0..<nat \<lfloor>R * 2 / 7\<rfloor>] =
        map (\<lambda>j. R * 3 / 7 + of_int (j + 1)) [0..\<lfloor>R * 2 / 7\<rfloor> - 1]"
    using upt_upto [of "\<lambda>j. R * 3 / 7 + 1 + of_int j" "\<lfloor>R * 2 / 7\<rfloor>"]
    by (simp add: add.assoc add.commute)
  also have "\<dots> = map (\<lambda>j. R * 3 / 7 + of_int j) [1..\<lfloor>R * 2 / 7\<rfloor>]"
    using upto_shift [of "\<lambda>j. R * 3 / 7 + of_int j" 1 0 "\<lfloor>R * 2 / 7\<rfloor> - 1"] by simp
  finally show ?thesis
    unfolding alignment_radii_def alignment_loop_def Let_def loop_values R_def [symmetric] n
    by simp
qed

lemma floor_sevenths: "\<lfloor>of_int R * of_int n / (7 :: rat)\<rfloor> = R * n div 7"
  using floor_divide_of_int_eq [of "R * n" 7, where ?'a = rat] by simp

lemma floor_sevenths': "\<lfloor>of_int n * of_int R / (7 :: rat)\<rfloor> = R * n div 7"
  using floor_sevenths [of R n] by (simp add: mult.commute)

lemma radii_multiple_of_7:
  assumes "7 dvd FINDER_RADIUS K"
  shows "finder_radii K = spec_finder_radii K" "alignment_radii K = spec_alignment_radii K"
proof -
  from assms obtain t where t: "FINDER_RADIUS K = 7 * t" ..
  have f: "\<lfloor>of_int (7 * t) * 3 / (7 :: rat)\<rfloor> = 3 * t" "\<lfloor>of_int (7 * t) * 2 / (7 :: rat)\<rfloor> = 2 * t"
    using floor_sevenths [of "7 * t" 3] floor_sevenths [of "7 * t" 2] by simp_all
  have f': "\<lfloor>3 * of_int (7 * t) / (7 :: rat)\<rfloor> = 3 * t" "\<lfloor>5 * of_int (7 * t) / (7 :: rat)\<rfloor> = 5 * t"
    using floor_sevenths' [of 3 "7 * t"] floor_sevenths' [of 5 "7 * t"] by simp_all
  have g: "of_int (7 * t) * 5 / (7 :: rat) = of_int (5 * t)" "of_int (7 * t) * 3 / (7 :: rat) = of_int (3 * t)"
    by simp_all
  have s: "map (\<lambda>k. rat_of_int c + of_int k) [1..2 * t] = map of_int [c + 1..c + 2 * t]" for c
    using upto_shift [of of_int c 1 "2 * t"] by (simp add: add.commute)
  show "finder_radii K = spec_finder_radii K"
    unfolding finder_radii_eq spec_finder_radii_def t f f' g s
    by (simp del: of_int_mult of_int_add)
  show "alignment_radii K = spec_alignment_radii K"
    unfolding alignment_radii_eq spec_alignment_radii_def t f f' g s
    by (simp del: of_int_mult of_int_add)
qed

lemma radii_negative:
  assumes "FINDER_RADIUS K < 0"
  shows "finder_radii K = spec_finder_radii K" "alignment_radii K = spec_alignment_radii K"
proof -
  define R where "R = FINDER_RADIUS K"
  have "R * 3 div 7 < 0" "R * 2 div 7 < 0" "R * 5 div 7 \<le> R * 3 div 7" "R \<le> R * 5 div 7"
    using assms unfolding R_def by linarith+
  then show "finder_radii K = spec_finder_radii K" "alignment_radii K = spec_alignment_radii K"
    unfolding finder_radii_eq alignment_radii_eq spec_finder_radii_def spec_alignment_radii_def
      R_def [symmetric]
    using floor_sevenths [of R 3] floor_sevenths [of R 2] floor_sevenths' [of 3 R]
      floor_sevenths' [of 5 R]
    by simp_all
qed

lemma sevenths_sum:
  assumes "\<not> 7 dvd (R::int)"
  shows "R * 2 div 7 \<noteq> R - R * 5 div 7"
proof
  assume eq: "R * 2 div 7 = R - R * 5 div 7"
  have "7 * (R * 2 div 7) + R * 2 mod 7 = R * 2" "7 * (R * 5 div 7) + R * 5 mod 7 = R * 5"
    by (rule mult_div_mod_eq)+
  moreover have "0 \<le> R * 2 mod 7" "0 \<le> R * 5 mod 7"
    by simp_all
  ultimately have "R * 2 mod 7 = 0"
    using eq by linarith
  then have "7 dvd R * 2"
    by (simp add: dvd_eq_mod_eq_0)
  then have "7 dvd 4 * (R * 2)"
    by (rule dvd_mult)
  moreover have "7 dvd 7 * R"
    by simp
  ultimately have "7 dvd 4 * (R * 2) - 7 * R"
    by (rule dvd_diff)
  then show False
    using assms by simp
qed

lemma radii_differ:
  assumes "\<not> 7 dvd FINDER_RADIUS K" and "0 \<le> FINDER_RADIUS K"
  shows "finder_radii K \<noteq> spec_finder_radii K"
proof -
  define R where "R = FINDER_RADIUS K"
  have d: "R * 2 div 7 \<noteq> R - R * 5 div 7"
    using assms(1) unfolding R_def by (rule sevenths_sum)
  have e: "0 \<le> R * 2 div 7" "0 \<le> R - R * 5 div 7" "0 \<le> R * 3 div 7"
    using assms(2) unfolding R_def by linarith+
  have "length (finder_radii K) = nat (R * 3 div 7 + 1) + nat (R * 2 div 7)"
    unfolding finder_radii_eq R_def [symmetric]
    using floor_sevenths [of R 3] floor_sevenths [of R 2] by simp
  moreover have "length (spec_finder_radii K) = nat (R * 3 div 7 + 1) + nat (R - R * 5 div 7)"
    unfolding spec_finder_radii_def R_def [symmetric]
    using floor_sevenths' [of 3 R] floor_sevenths' [of 5 R] by simp
  ultimately have "length (finder_radii K) \<noteq> length (spec_finder_radii K)"
    using d e by (simp add: nat_eq_iff)
  then show ?thesis
    by auto
qed

lemma drawFinderPattern_radii:
  "drawFinderPattern K c m = fold (\<lambda>r. drawCircle c r True) (finder_radii K) m"
  unfolding drawFinderPattern_def finder_radii_def finder_loops_def Let_def
  by (simp only: loop_values) (simp add: for_upto_fold)

lemma drawAlignmentPattern_radii:
  "drawAlignmentPattern K c m = fold (\<lambda>r. drawCircle c r True) (alignment_radii K) m"
  unfolding drawAlignmentPattern_def alignment_radii_def alignment_loop_def Let_def
  by (simp only: loop_values) (simp add: for_upto_fold)

text \<open>
  The radii at which the two patterns call \<open>drawCircle\<close>, for every \<open>R = FINDER_RADIUS\<close>.
  The thresholds are the exact quotients \<open>3R/7\<close> and \<open>5R/7\<close>. The finder pattern draws at
  the integer radii 0 to \<open>\<lfloor>3R/7\<rfloor>\<close> and then at \<open>5R/7 + k\<close> for \<open>k\<close> from 1 to \<open>\<lfloor>2R/7\<rfloor>\<close>;
  the alignment pattern draws at \<open>3R/7 + k\<close> for \<open>k\<close> from 1 to \<open>\<lfloor>2R/7\<rfloor>\<close>. These are the
  radii of the spec exactly when \<open>R\<close> is a multiple of 7 or negative (then no circle is
  drawn at all).
\<close>

lemma finder_alignment_radii_general:
  "drawFinderPattern K c m = fold (\<lambda>r. drawCircle c r True) (finder_radii K) m \<and>
   drawAlignmentPattern K c m = fold (\<lambda>r. drawCircle c r True) (alignment_radii K) m \<and>
   finder_radii K =
     map of_int [0..\<lfloor>of_int (FINDER_RADIUS K) * 3 / (7 :: rat)\<rfloor>] @
     map (\<lambda>k. of_int (FINDER_RADIUS K) * 5 / 7 + of_int k)
       [1..\<lfloor>of_int (FINDER_RADIUS K) * 2 / (7 :: rat)\<rfloor>] \<and>
   alignment_radii K =
     map (\<lambda>k. of_int (FINDER_RADIUS K) * 3 / 7 + of_int k)
       [1..\<lfloor>of_int (FINDER_RADIUS K) * 2 / (7 :: rat)\<rfloor>] \<and>
   ((finder_radii K = spec_finder_radii K \<and> alignment_radii K = spec_alignment_radii K) \<longleftrightarrow>
    (7 dvd FINDER_RADIUS K \<or> FINDER_RADIUS K < 0))"
proof -
  have "(finder_radii K = spec_finder_radii K \<and> alignment_radii K = spec_alignment_radii K) \<longleftrightarrow>
    (7 dvd FINDER_RADIUS K \<or> FINDER_RADIUS K < 0)"
    using radii_multiple_of_7 [of K] radii_negative [of K] radii_differ [of K]
    by (cases "FINDER_RADIUS K < 0") auto
  then show ?thesis
    using drawFinderPattern_radii [of K c m] drawAlignmentPattern_radii [of K c m]
      finder_radii_eq [of K] alignment_radii_eq [of K]
    by blast
qed

subsection \<open>Mirror symmetry of the finder pattern\<close>

lemma in_octants:
  "(p, q) \<in> set (octants c x y) \<longleftrightarrow>
     (\<bar>p - pt_x c\<bar> = \<bar>x\<bar> \<and> \<bar>q - pt_y c\<bar> = \<bar>y\<bar>) \<or> (\<bar>p - pt_x c\<bar> = \<bar>y\<bar> \<and> \<bar>q - pt_y c\<bar> = \<bar>x\<bar>)"
proof -
  have e: "\<bar>u\<bar> = \<bar>v\<bar> \<longleftrightarrow> u = v \<or> u = - v" for u v :: rat
    by (rule abs_eq_iff)
  have s: "p - a = b \<longleftrightarrow> p = a + b" "p - a = - b \<longleftrightarrow> p = a - b" for p a b :: rat
    by auto
  show ?thesis
    unfolding e s octants_def by auto
qed

lemma octants_orbit:
  assumes "(p, q) \<in> set (octants c a b)"
  shows "(p, q) \<in> set (octants c x y) \<longleftrightarrow> (pt_x c + a, pt_y c + b) \<in> set (octants c x y)"
proof -
  define P Q A B X Y where "P = \<bar>p - pt_x c\<bar>" and "Q = \<bar>q - pt_y c\<bar>" and "A = \<bar>a\<bar>"
    and "B = \<bar>b\<bar>" and "X = \<bar>x\<bar>" and "Y = \<bar>y\<bar>"
  have 1: "(P = A \<and> Q = B) \<or> (P = B \<and> Q = A)"
    using assms by (simp only: in_octants P_def Q_def A_def B_def)
  have 2: "(p, q) \<in> set (octants c x y) \<longleftrightarrow> (P = X \<and> Q = Y) \<or> (P = Y \<and> Q = X)"
    by (simp only: in_octants P_def Q_def X_def Y_def)
  have 3: "(pt_x c + a, pt_y c + b) \<in> set (octants c x y) \<longleftrightarrow>
        (A = X \<and> B = Y) \<or> (A = Y \<and> B = X)"
    by (simp only: in_octants add_diff_cancel_left' A_def B_def X_def Y_def)
  show ?thesis
    unfolding 2 3 using 1 by blast
qed

lemma mirror_symmetric_setPixel:
  assumes "mirror_symmetric c m"
  shows "mirror_symmetric c (setPixelSymmetricOctant c x y True m)"
  unfolding mirror_symmetric_def
proof (intro allI impI)
  fix a b p q
  assume o: "(p, q) \<in> set (octants c a b)"
    and r: "in_range (setPixelSymmetricOctant c x y True m) p q"
      "in_range (setPixelSymmetricOctant c x y True m) (pt_x c + a) (pt_y c + b)"
  from r have r': "in_range m p q" "in_range m (pt_x c + a) (pt_y c + b)"
    by (simp_all add: setPixelSymmetricOctant_set_pixels)
  have "BitMatrix_get m p q = BitMatrix_get m (pt_x c + a) (pt_y c + b)"
    using assms o r' unfolding mirror_symmetric_def by blast
  then show "BitMatrix_get (setPixelSymmetricOctant c x y True m) p q =
        BitMatrix_get (setPixelSymmetricOctant c x y True m) (pt_x c + a) (pt_y c + b)"
    using r' octants_orbit [OF o, of x y]
    by (simp add: setPixelSymmetricOctant_set_pixels get_set_pixels)
qed

lemma circle_loop_invariant_aux:
  "(\<forall>x' y' m'. P m' \<longrightarrow> P (setPixelSymmetricOctant c x' y' color m')) \<Longrightarrow> P m \<Longrightarrow>
   P (circle_loop c r color x y dx dy err m)"
proof (induction c r color x y dx dy err m rule: circle_loop.induct)
  case (1 c r color x y dx dy err m)
  show ?case
  proof (cases "x \<ge> y")
    case False
    then show ?thesis
      using "1.prems"(2) by (simp add: circle_loop.simps [of c r color x y])
  next
    case True
    have "P (setPixelSymmetricOctant c x y color m)"
      using "1.prems" by blast
    then show ?thesis
      using True "1.IH" (1) [OF True refl _ "1.prems"(1)] "1.IH" (2) [OF True refl _ "1.prems"(1)]
      by (cases "err \<le> 0") (simp_all add: circle_loop.simps [of c r color x y] Let_def)
  qed
qed

lemma circle_loop_invariant:
  assumes "\<And>x' y' m'. P m' \<Longrightarrow> P (setPixelSymmetricOctant c x' y' color m')" and "P m"
  shows "P (circle_loop c r color x y dx dy err m)"
  by (rule circle_loop_invariant_aux) (use assms in blast)+

lemma mirror_symmetric_new: "mirror_symmetric c (BitMatrix_new h w)"
  by (simp add: mirror_symmetric_def BitMatrix_get_def BitMatrix_new_def)

lemma mirror_symmetric_drawCircle:
  "mirror_symmetric c m \<Longrightarrow> mirror_symmetric c (drawCircle c r True m)"
  unfolding drawCircle_def
  by (rule circle_loop_invariant [where P = "mirror_symmetric c"])
     (simp_all add: mirror_symmetric_setPixel)

lemma mirror_symmetric_drawFinderPattern:
  assumes "mirror_symmetric c m"
  shows "mirror_symmetric c (drawFinderPattern K c m)"
  unfolding drawFinderPattern_def finder_loops_def Let_def
  by (rule for_upto_invariant [where P = "mirror_symmetric c"],
      simp add: mirror_symmetric_drawCircle,
      rule for_upto_invariant [where P = "mirror_symmetric c"],
      simp add: mirror_symmetric_drawCircle, rule assms)

lemma in_range_dims:
  "height m' = height m \<Longrightarrow> width m' = width m \<Longrightarrow> in_range m' p q = in_range m p q"
  by (simp add: in_range_def)

lemma in_range_drawCircle [simp]: "in_range (drawCircle c r color m) p q = in_range m p q"
  by (rule in_range_dims) simp_all

lemma in_range_drawFinderPattern [simp]:
  "in_range (drawFinderPattern K c m) p q = in_range m p q"
  by (rule in_range_dims) (simp_all add: dims_finder_loops)

lemma get_kept_setPixel:
  "BitMatrix_get m p q \<Longrightarrow> BitMatrix_get (setPixelSymmetricOctant c x y True m) p q"
  by (simp add: setPixelSymmetricOctant_set_pixels get_set_pixels)

lemma get_kept_circle_loop:
  "BitMatrix_get m p q \<Longrightarrow> BitMatrix_get (circle_loop c r True x y dx dy err m) p q"
  by (rule circle_loop_invariant [where P = "\<lambda>m'. BitMatrix_get m' p q"])
     (simp_all add: get_kept_setPixel)

lemma get_drawCircle_start:
  assumes "0 \<le> r" and "in_range m (pt_x c + r) (pt_y c)"
  shows "BitMatrix_get (drawCircle c r True m) (pt_x c + r) (pt_y c)"
proof -
  have "(pt_x c + r, pt_y c) \<in> set (octants c r 0)"
    by (simp add: octants_def)
  then have "BitMatrix_get (setPixelSymmetricOctant c r 0 True m) (pt_x c + r) (pt_y c)"
    using assms(2) by (simp add: setPixelSymmetricOctant_set_pixels get_set_pixels)
  then show ?thesis
    using assms(1)
    by (simp add: drawCircle_def circle_loop.simps [of c r True r 0] Let_def get_kept_circle_loop)
qed

text \<open>
  Claim C8. Draw a finder pattern with centre \<open>c\<close> on a fresh matrix. For every offset
  \<open>(a, b)\<close> whose eight octant mirrors about \<open>c\<close> all lie in the plane, the eight pixels
  \<open>(cx \<plusminus> a, cy \<plusminus> b)\<close> and \<open>(cx \<plusminus> b, cy \<plusminus> a)\<close> have the same value: one is set if and
  only if every other is set.
\<close>

theorem finder_pattern_octant_mirror:
  assumes "m = drawFinderPattern K c (BitMatrix_new h w)"
    and "\<forall>pq\<in>set (octants c a b). in_range m (fst pq) (snd pq)"
  shows "BitMatrix_get m (pt_x c + a) (pt_y c - b) = BitMatrix_get m (pt_x c + a) (pt_y c + b) \<and>
         BitMatrix_get m (pt_x c - a) (pt_y c + b) = BitMatrix_get m (pt_x c + a) (pt_y c + b) \<and>
         BitMatrix_get m (pt_x c - a) (pt_y c - b) = BitMatrix_get m (pt_x c + a) (pt_y c + b) \<and>
         BitMatrix_get m (pt_x c + b) (pt_y c + a) = BitMatrix_get m (pt_x c + a) (pt_y c + b) \<and>
         BitMatrix_get m (pt_x c + b) (pt_y c - a) = BitMatrix_get m (pt_x c + a) (pt_y c + b) \<and>
         BitMatrix_get m (pt_x c - b) (pt_y c + a) = BitMatrix_get m (pt_x c + a) (pt_y c + b) \<and>
         BitMatrix_get m (pt_x c - b) (pt_y c - a) = BitMatrix_get m (pt_x c + a) (pt_y c + b)"
proof -
  have sym: "mirror_symmetric c m"
    unfolding assms(1) by (rule mirror_symmetric_drawFinderPattern [OF mirror_symmetric_new])
  have inr: "in_range m p q" if "(p, q) \<in> set (octants c a b)" for p q
    using assms(2) that by force
  have "(pt_x c + a, pt_y c + b) \<in> set (octants c a b)"
    by (simp add: octants_def)
  then have centre: "in_range m (pt_x c + a) (pt_y c + b)"
    by (rule inr)
  have eq: "BitMatrix_get m p q = BitMatrix_get m (pt_x c + a) (pt_y c + b)"
    if "(p, q) \<in> set (octants c a b)" for p q
    using sym [unfolded mirror_symmetric_def, rule_format, OF that inr [OF that] centre] .
  show ?thesis
    by (intro conjI eq) (simp_all add: octants_def)
qed

text \<open>
  In the sample layout, centre (30, 30): the end point (51, 30) of the outermost circle,
  of radius 21, is set, and so are its mirrors (9, 30), (30, 51) and (30, 9).
\<close>

theorem finder_pattern_octant_mirror_witness:
  "BitMatrix_get
     (drawFinderPattern sample_layout \<lparr>pt_x = 30, pt_y = 30\<rparr> (BitMatrix_new 324 324)) 51 30 \<and>
   BitMatrix_get
     (drawFinderPattern sample_layout \<lparr>pt_x = 30, pt_y = 30\<rparr> (BitMatrix_new 324 324)) 9 30 \<and>
   BitMatrix_get
     (drawFinderPattern sample_layout \<lparr>pt_x = 30, pt_y = 30\<rparr> (BitMatrix_new 324 324)) 30 51 \<and>
   BitMatrix_get
     (drawFinderPattern sample_layout \<lparr>pt_x = 30, pt_y = 30\<rparr> (BitMatrix_new 324 324)) 30 9"
proof -
  define c where "c = \<lparr>pt_x = 30, pt_y = 30\<rparr>"
  define m where "m = drawFinderPattern sample_layout c (BitMatrix_new 324 324)"
  have c: "pt_x c = 30" "pt_y c = 30"
    by (simp_all add: c_def)
  have fl: "FINDER_RADIUS sample_layout = 21" "\<lfloor>(21 :: rat) * 3 / 7\<rfloor> = 9"
    "\<lfloor>(21 :: rat) * 2 / 7\<rfloor> = 6"
    by (simp_all add: sample_layout_def)
  have "finder_radii sample_layout = [0, 1, 2, 3, 4, 5, 6, 7, 8, 9, 16, 17, 18, 19, 20] @ [21]"
    by (simp add: finder_radii_eq fl upto_rec1)
  then obtain m1 where m1: "m = drawCircle c 21 True m1" "in_range m1 = in_range (BitMatrix_new 324 324)"
    unfolding m_def drawFinderPattern_radii by (auto simp: fun_eq_iff)
  have "in_range m1 (pt_x c + 21) (pt_y c)"
    unfolding m1(2) by (simp add: c in_range_def is_integer_def BitMatrix_new_def)
  then have "BitMatrix_get m (pt_x c + 21) (pt_y c)"
    unfolding m1(1) by (intro get_drawCircle_start) simp_all
  then have start: "BitMatrix_get m 51 30"
    by (simp add: c)
  have "\<forall>pq\<in>set (octants c 21 0). in_range m (fst pq) (snd pq)"
    unfolding m_def in_range_drawFinderPattern
    by (simp add: octants_def c in_range_def is_integer_def BitMatrix_new_def)
  from finder_pattern_octant_mirror [OF m_def this] start
  show ?thesis
    unfolding m_def [symmetric] c_def [symmetric] by (simp add: c)
qed

subsection \<open>The rings of a finder radius that is not a multiple of 7\<close>

text \<open>
  A circle of a radius that is not a whole number, about a centre of whole coordinates,
  sets no pixel: every coordinate pair of the walk has a component that is not whole.
\<close>

lemma is_integer_Ints: "is_integer q \<longleftrightarrow> q \<in> \<int>"
  by (auto simp: is_integer_def Ints_def)

lemma fractional_sum:
  assumes "is_integer a" and "\<not> is_integer x"
  shows "\<not> is_integer (a + x)" "\<not> is_integer (a - x)"
proof -
  show "\<not> is_integer (a + x)"
  proof
    assume "is_integer (a + x)"
    then have "a + x - a \<in> \<int>"
      using assms(1) unfolding is_integer_Ints by (rule Ints_diff)
    then show False
      using assms(2) by (simp add: is_integer_Ints)
  qed
  show "\<not> is_integer (a - x)"
  proof
    assume h: "is_integer (a - x)"
    have "a - (a - x) \<in> \<int>"
      using assms(1) h unfolding is_integer_Ints by (rule Ints_diff)
    then show False
      using assms(2) by (simp add: is_integer_Ints)
  qed
qed

lemma BitMatrix_set_outside: "\<not> in_range m x y \<Longrightarrow> BitMatrix_set m x y color = m"
  by (simp add: BitMatrix_set_def)

lemma setPixelSymmetricOctant_fractional:
  assumes "is_integer (pt_x c)" and "is_integer (pt_y c)" and "\<not> is_integer x"
  shows "setPixelSymmetricOctant c x y color m = m"
proof -
  have "\<not> in_range m' (pt_x c + x) q" "\<not> in_range m' (pt_x c - x) q"
    "\<not> in_range m' p (pt_y c + x)" "\<not> in_range m' p (pt_y c - x)" for m' p q
    using fractional_sum [OF assms(1,3)] fractional_sum [OF assms(2,3)]
    by (simp_all add: in_range_def)
  then show ?thesis
    by (simp add: setPixelSymmetricOctant_def Let_def BitMatrix_set_outside)
qed

lemma circle_loop_fractional:
  "is_integer (pt_x c) \<Longrightarrow> is_integer (pt_y c) \<Longrightarrow> \<not> is_integer x \<Longrightarrow>
   circle_loop c r color x y dx dy err m = m"
proof (induction c r color x y dx dy err m rule: circle_loop.induct)
  case (1 c r color x y dx dy err m)
  show ?case
  proof (cases "x \<ge> y")
    case False
    then show ?thesis
      by (simp add: circle_loop.simps [of c r color x y])
  next
    case True
    have s: "setPixelSymmetricOctant c x y color m = m"
      using "1.prems" by (rule setPixelSymmetricOctant_fractional)
    have "\<not> is_integer (x - 1)"
      using fractional_sum(1) [of "- 1" x] "1.prems"(3)
      by (simp add: is_integer_Ints)
    then show ?thesis
      using True "1.IH" (1) [OF True refl _ "1.prems"] "1.IH" (2) [OF True refl _ "1.prems"(1,2)]
      by (cases "err \<le> 0") (simp_all add: circle_loop.simps [of c r color x y] Let_def s)
  qed
qed

lemma drawCircle_fractional:
  "is_integer (pt_x c) \<Longrightarrow> is_integer (pt_y c) \<Longrightarrow> \<not> is_integer r \<Longrightarrow>
   drawCircle c r color m = m"
  by (simp add: drawCircle_def circle_loop_fractional)

lemma circle_loop_reach:
  "BitMatrix_get (circle_loop c r True x y dx dy err m) p q \<Longrightarrow> 0 \<le> y \<Longrightarrow> x \<le> R \<Longrightarrow>
   BitMatrix_get m p q \<or> (\<bar>p - pt_x c\<bar> \<le> R \<and> \<bar>q - pt_y c\<bar> \<le> R)"
proof (induction c r "True" x y dx dy err m rule: circle_loop.induct)
  case (1 c r x y dx dy err m)
  show ?case
  proof (cases "x \<ge> y")
    case False
    then show ?thesis
      using "1.prems"(1) by (simp add: circle_loop.simps [of c r True x y])
  next
    case True
    let ?m' = "setPixelSymmetricOctant c x y True m"
    have step: "BitMatrix_get m p q \<or> (\<bar>p - pt_x c\<bar> \<le> R \<and> \<bar>q - pt_y c\<bar> \<le> R)"
      if "BitMatrix_get ?m' p q"
    proof (cases "(p, q) \<in> set (octants c x y)")
      case False
      then show ?thesis
        using that by (simp add: setPixelSymmetricOctant_set_pixels get_set_pixels)
    next
      case True
      then have "(\<bar>p - pt_x c\<bar> = \<bar>x\<bar> \<and> \<bar>q - pt_y c\<bar> = \<bar>y\<bar>) \<or>
          (\<bar>p - pt_x c\<bar> = \<bar>y\<bar> \<and> \<bar>q - pt_y c\<bar> = \<bar>x\<bar>)"
        by (simp only: in_octants)
      moreover have "\<bar>x\<bar> \<le> R" "\<bar>y\<bar> \<le> R"
        using \<open>x \<ge> y\<close> "1.prems"(2,3) by linarith+
      ultimately show ?thesis
        by auto
    qed
    have "BitMatrix_get ?m' p q \<or> (\<bar>p - pt_x c\<bar> \<le> R \<and> \<bar>q - pt_y c\<bar> \<le> R)"
    proof (cases "err \<le> 0")
      case e: True
      have "BitMatrix_get (circle_loop c r True x (y + 1) dx (dy + 2) (err + dy) ?m') p q"
        using "1.prems"(1) True e by (simp add: circle_loop.simps [of c r True x y] Let_def)
      then show ?thesis
        using "1.hyps"(1) [OF True refl e] "1.prems"(2,3) by simp
    next
      case e: False
      have "BitMatrix_get (circle_loop c r True (x - 1) y (dx + 2) dy (err + (dx + 2) - 2 * r) ?m') p q"
        using "1.prems"(1) True e by (simp add: circle_loop.simps [of c r True x y] Let_def)
      then show ?thesis
        using "1.hyps"(2) [OF True refl e] "1.prems"(2,3) by simp
    qed
    then show ?thesis
      using step by blast
  qed
qed

lemma drawCircle_reach:
  assumes "BitMatrix_get (drawCircle c r True m) p q"
  shows "BitMatrix_get m p q \<or> (\<bar>p - pt_x c\<bar> \<le> r \<and> \<bar>q - pt_y c\<bar> \<le> r)"
  using assms unfolding drawCircle_def by (rule circle_loop_reach) simp_all

lemma fold_drawCircle_reach:
  "BitMatrix_get (fold (\<lambda>r. drawCircle c r True) rs m) p q \<Longrightarrow>
   BitMatrix_get m p q \<or> (\<exists>r\<in>set rs. \<bar>p - pt_x c\<bar> \<le> r \<and> \<bar>q - pt_y c\<bar> \<le> r)"
proof (induction rs arbitrary: m)
  case Nil
  then show ?case by simp
next
  case (Cons r rs)
  from Cons.IH [of "drawCircle c r True m"] Cons.prems
  have "BitMatrix_get (drawCircle c r True m) p q \<or>
      (\<exists>r\<in>set rs. \<bar>p - pt_x c\<bar> \<le> r \<and> \<bar>q - pt_y c\<bar> \<le> r)"
    by simp
  then show ?case
    using drawCircle_reach [of c r m p q] by auto
qed

lemma radii_radius_10:
  "finder_radii radius_10_layout = [0, 1, 2, 3, 4, 57 / 7, 64 / 7]"
  "alignment_radii radius_10_layout = [37 / 7, 44 / 7]"
  "spec_finder_radii radius_10_layout = [0, 1, 2, 3, 4, 8, 9, 10]"
  "spec_alignment_radii radius_10_layout = [5, 6, 7]"
proof -
  have fl: "\<lfloor>(30 :: rat) / 7\<rfloor> = 4" "\<lfloor>(50 :: rat) / 7\<rfloor> = 7"
    by (simp_all add: floor_eq_iff)
  show "finder_radii radius_10_layout = [0, 1, 2, 3, 4, 57 / 7, 64 / 7]"
    by (simp add: finder_radii_def finder_loops_def radius_10_layout_def sample_layout_def
        for_upto.simps)
  show "alignment_radii radius_10_layout = [37 / 7, 44 / 7]"
    by (simp add: alignment_radii_def alignment_loop_def radius_10_layout_def sample_layout_def
        for_upto.simps)
  show "spec_finder_radii radius_10_layout = [0, 1, 2, 3, 4, 8, 9, 10]"
    by (simp add: spec_finder_radii_def radius_10_layout_def sample_layout_def fl upto_rec1)
  show "spec_alignment_radii radius_10_layout = [5, 6, 7]"
    by (simp add: spec_alignment_radii_def radius_10_layout_def sample_layout_def fl upto_rec1)
qed

lemma fractional_radii:
  "\<not> is_integer (57 / 7)" "\<not> is_integer (64 / 7)" "\<not> is_integer (37 / 7)"
  "\<not> is_integer (44 / 7)"
proof -
  have fl: "\<lfloor>(57 :: rat) / 7\<rfloor> = 8" "\<lfloor>(64 :: rat) / 7\<rfloor> = 9" "\<lfloor>(37 :: rat) / 7\<rfloor> = 5"
    "\<lfloor>(44 :: rat) / 7\<rfloor> = 6"
    by (simp_all add: floor_eq_iff)
  show "\<not> is_integer (57 / 7)" "\<not> is_integer (64 / 7)" "\<not> is_integer (37 / 7)"
    "\<not> is_integer (44 / 7)"
    by (simp_all add: is_integer_def fl)
qed


end
